theory Spec2Isabelle
  imports Main "HOL-Library.Word"
begin

section \<open>Values, errors and the collaborators of the executor\<close>

text \<open>
  A Go \<^verbatim>\<open>interface{}\<close> is either nil or holds a dynamically typed value.  \<open>VNil\<close> is
  the nil interface: the content of a result slot that was never assigned.
\<close>

datatype val = VNil | VInt int | VStr string | VList "val list"

type_synonym row = "val list"

type_synonym int64 = "64 word"

text \<open>
  Go errors are opaque values.  \<open>Err\<close> is an error produced by a collaborator (the driver,
  a cursor or a callback); \<open>ErrTxDone\<close> is what \<^verbatim>\<open>database/sql\<close> answers on a
  transaction that is already finished; \<open>ExpectedDifferentAffectedRows expected affected query\<close>
  is the error built by
  \<^verbatim>\<open>fmt.Errorf(expectedDifferentAffectedRows, expected, affected, command.Query)\<close>.
\<close>

datatype error =
    Err string
  | ErrTxDone
  | ExpectedDifferentAffectedRows int64 int64 string

text \<open>
  The row cursor returned by \<^verbatim>\<open>tx.Query\<close>: the rows that \<^verbatim>\<open>Next\<close> will
  deliver in order, the fault that \<^verbatim>\<open>Err\<close> reports once \<^verbatim>\<open>Next\<close> has returned false,
  and the answer of \<^verbatim>\<open>Close\<close>.
\<close>

record Rows =
  rows_data :: "row list"
  rows_fault :: "error option"
  rows_close :: "error option"

text \<open>
  The calls that the executor makes on its collaborators, in the order it makes them.
  The first component of an indexed event is the index of the command in the batch.
  \<open>TxCommit\<close> and \<open>TxRollback\<close> are recorded when the operation acts on an open
  transaction (a call answered with \<open>ErrTxDone\<close> performs nothing and is not recorded).
\<close>

datatype event =
    CallArgsFunc nat "val list"
  | CallExec nat string "val list"
  | CallQuery nat string "val list"
  | CallReadOne nat row
  | CallReadAll nat val row
  | CallClose nat
  | TxCommit
  | TxRollback

text \<open>
  The transaction of a state: none begun yet, open, or finished by a call of commit
  (whatever the driver answered to it) or of rollback.
\<close>

datatype tx_status = NoTx | TxOpen | TxCommitted | TxRolledBack

text \<open>
  The database behind the transaction handle is a deterministic function of an abstract
  state \<open>'w\<close>. \<^verbatim>\<open>tx.Exec\<close> answers with an error or with a result whose
  \<^verbatim>\<open>RowsAffected()\<close> is again an error or a count.
\<close>

record 'w driver =
  db_Begin :: "'w \<Rightarrow> error option \<times> 'w"
  tx_Exec :: "string \<Rightarrow> val list \<Rightarrow> 'w \<Rightarrow> (error + (error + int64)) \<times> 'w"
  tx_Query :: "string \<Rightarrow> val list \<Rightarrow> 'w \<Rightarrow> (error + Rows) \<times> 'w"
  drv_Commit :: "'w \<Rightarrow> error option \<times> 'w"
  drv_Rollback :: "'w \<Rightarrow> error option \<times> 'w"

record 'w state =
  world :: 'w
  status :: tx_status
  trace :: "event list"

definition emit :: "event \<Rightarrow> 'w state \<Rightarrow> 'w state" where
  "emit ev st = st\<lparr>trace := trace st @ [ev]\<rparr>"

text \<open>
  \<^verbatim>\<open>tx.Commit()\<close> and \<^verbatim>\<open>tx.Rollback()\<close> of \<^verbatim>\<open>database/sql\<close>: the first of them
  that reaches an open transaction finishes it and returns the driver's answer; on a
  finished transaction both return \<open>ErrTxDone\<close> and do nothing.
\<close>

definition tx_Commit :: "'w driver \<Rightarrow> 'w state \<Rightarrow> error option \<times> 'w state" where
  "tx_Commit d st =
     (if status st = TxOpen then
        (case drv_Commit d (world st) of
           (r, w') \<Rightarrow> (r, emit TxCommit (st\<lparr>world := w', status := TxCommitted\<rparr>)))
      else (Some ErrTxDone, st))"

definition tx_Rollback :: "'w driver \<Rightarrow> 'w state \<Rightarrow> error option \<times> 'w state" where
  "tx_Rollback d st =
     (if status st = TxOpen then
        (case drv_Rollback d (world st) of
           (r, w') \<Rightarrow> (r, emit TxRollback (st\<lparr>world := w', status := TxRolledBack\<rparr>)))
      else (Some ErrTxDone, st))"

section \<open>The results-returning executor (sqlbatch.go, \<^verbatim>\<open>func Batch\<close>)\<close>

text \<open>
  The callbacks are functions of their explicit parameters: they read the results
  sequence and the memo they are handed and assign neither.  A Go callback returns a value
  and an error together; a nil function field is \<open>None\<close>.  The decoding capability
  \<^verbatim>\<open>rows.Scan\<close> handed to a read callback is represented by the current row.
\<close>

record Command =
  Query :: string
  ArgsFunc :: "(val list \<Rightarrow> val list) option"
  Args :: "val list"
  Init :: val
  ReadAll :: "(val \<Rightarrow> row \<Rightarrow> val \<times> error option) option"
  ReadOne :: "(row \<Rightarrow> val \<times> error option) option"
  Affect :: int64

text \<open>
  Lines 146-149, of \<open>command.ArgsFunc\<close> and \<open>command.Args\<close>:
  \<^verbatim>\<open>args := command.Args; if command.ArgsFunc != nil { args = command.ArgsFunc(results) }\<close>.
\<close>

definition resolve_args ::
  "nat \<Rightarrow> (val list \<Rightarrow> val list) option \<Rightarrow> val list \<Rightarrow> val list \<Rightarrow> 'w state
     \<Rightarrow> val list \<times> 'w state" where
  "resolve_args i argsFunc args results st =
     (case argsFunc of
        None \<Rightarrow> (args, st)
      | Some f \<Rightarrow> (f results, emit (CallArgsFunc i results) st))"

text \<open>Lines 159-162: \<^verbatim>\<open>expected := command.Affect; if expected < 0 { expected = 0 }\<close> on int64.\<close>

definition expected_rows :: "int64 \<Rightarrow> int64" where
  "expected_rows affect = (if sint affect < 0 then 0 else affect)"

text \<open>
  Lines 151-166, the branch \<^verbatim>\<open>command.Affect != 0\<close>, of \<open>command.Query\<close> and
  \<open>command.Affect\<close>.  The answer is the error returned (or \<open>None\<close> when the loop
  continues) and the state after the call.  The three executors of the repository have
  this branch word for word.
\<close>

definition write_check ::
  "'w driver \<Rightarrow> nat \<Rightarrow> string \<Rightarrow> int64 \<Rightarrow> val list \<Rightarrow> 'w state
     \<Rightarrow> error option \<times> 'w state" where
  "write_check d i query affect args st =
     (case tx_Exec d query args (world st) of
        (r, w') \<Rightarrow>
          let st1 = emit (CallExec i query args) (st\<lparr>world := w'\<rparr>) in
          (case r of
             Inl err \<Rightarrow> (Some err, st1)
           | Inr result \<Rightarrow>
               (case result of
                  Inl err \<Rightarrow> (Some err, st1)
                | Inr affected \<Rightarrow>
                    let expected = expected_rows affect in
                    if expected \<noteq> affected
                    then (Some (ExpectedDifferentAffectedRows expected affected query), st1)
                    else (None, st1))))"

text \<open>
  Lines 182-188: the loop \<^verbatim>\<open>for rows.Next() { memo, err = command.ReadAll(memo, rows.Scan); ... }\<close>.
  The answer is the last memo, the callback error that ended the loop (if any) and the trace.
\<close>

fun readAll_loop ::
  "(val \<Rightarrow> row \<Rightarrow> val \<times> error option) \<Rightarrow> nat \<Rightarrow> val \<Rightarrow> row list \<Rightarrow> event list
     \<Rightarrow> val \<times> error option \<times> event list" where
  "readAll_loop f i memo [] tr = (memo, None, tr)"
| "readAll_loop f i memo (r # rs) tr =
     (case f memo r of
        (memo', Some err) \<Rightarrow> (memo', Some err, tr @ [CallReadAll i memo r])
      | (memo', None) \<Rightarrow> readAll_loop f i memo' rs (tr @ [CallReadAll i memo r]))"

text \<open>
  Lines 173-190: the callbacks of a read command, of \<open>command.ReadOne\<close>,
  \<open>command.ReadAll\<close> and \<open>command.Init\<close>:
  \<^verbatim>\<open>if command.ReadOne != nil { if rows.Next() {...} } else if command.ReadAll != nil {...}\<close>.
  The answer is the results sequence, the callback error (if any), whether
  \<^verbatim>\<open>rows.Next()\<close> has returned false, and the state.  The earlier \<^verbatim>\<open>func Batch\<close> has the
  same block with the fields named \<open>ScanOnce\<close>, \<open>Scan\<close> and \<open>Memo\<close>.  The assignment
  \<^verbatim>\<open>results[i] = ...\<close> is always in range: the loop runs \<open>i\<close> over the indices of
  \<open>commands\<close> and \<open>results\<close> has one slot for each.
\<close>

definition read_rows ::
  "nat \<Rightarrow> (row \<Rightarrow> val \<times> error option) option \<Rightarrow> (val \<Rightarrow> row \<Rightarrow> val \<times> error option) option
     \<Rightarrow> val \<Rightarrow> Rows \<Rightarrow> val list \<Rightarrow> 'w state
     \<Rightarrow> val list \<times> error option \<times> bool \<times> 'w state" where
  "read_rows i readOne readAll init rows results st =
     (case readOne of
        Some f \<Rightarrow>
          (case rows_data rows of
             [] \<Rightarrow> (results, None, True, st)
           | r # rest \<Rightarrow>
               (case f r of
                  (result, Some err) \<Rightarrow> (results, Some err, False, emit (CallReadOne i r) st)
                | (result, None) \<Rightarrow>
                    (results[i := result], None, False, emit (CallReadOne i r) st)))
      | None \<Rightarrow>
          (case readAll of
             Some g \<Rightarrow>
               (case readAll_loop g i init (rows_data rows) (trace st) of
                  (memo, Some err, tr) \<Rightarrow> (results, Some err, False, st\<lparr>trace := tr\<rparr>)
                | (memo, None, tr) \<Rightarrow> (results[i := memo], None, True, st\<lparr>trace := tr\<rparr>))
           | None \<Rightarrow> (results, None, False, st)))"

text \<open>
  \<^verbatim>\<open>rows.Err()\<close>: the fault of the cursor, visible once \<^verbatim>\<open>Next\<close> has returned false.
\<close>

definition rows_Err :: "Rows \<Rightarrow> bool \<Rightarrow> error option" where
  "rows_Err rows exhausted = (if exhausted then rows_fault rows else None)"

text \<open>
  Lines 168-197, the branch \<^verbatim>\<open>command.Affect == 0\<close>.  The third component lists the
  cursors for which \<^verbatim>\<open>defer rows.Close()\<close> (line 172) has been registered by this command.
\<close>

definition read_command ::
  "'w driver \<Rightarrow> nat \<Rightarrow> Command \<Rightarrow> val list \<Rightarrow> val list \<Rightarrow> 'w state
     \<Rightarrow> val list \<times> error option \<times> nat list \<times> 'w state" where
  "read_command d i c args results st =
     (case tx_Query d (Query c) args (world st) of
        (r, w') \<Rightarrow>
          let st1 = emit (CallQuery i (Query c) args) (st\<lparr>world := w'\<rparr>) in
          (case r of
             Inl err \<Rightarrow> (results, Some err, [], st1)
           | Inr rows \<Rightarrow>
               (case read_rows i (ReadOne c) (ReadAll c) (Init c) rows results st1 of
                  (results', Some err, exhausted, st2) \<Rightarrow> (results', Some err, [i], st2)
                | (results', None, exhausted, st2) \<Rightarrow>
                    (case rows_Err rows exhausted of
                       Some err \<Rightarrow> (results', Some err, [i], st2)
                     | None \<Rightarrow>
                         (case rows_close rows of
                            Some err \<Rightarrow> (results', Some err, [i], emit (CallClose i) st2)
                          | None \<Rightarrow> (results', None, [i], emit (CallClose i) st2))))))"

text \<open>Lines 146-198: the body of the loop for the command at index \<open>i\<close>.\<close>

definition Batch_step ::
  "'w driver \<Rightarrow> nat \<Rightarrow> Command \<Rightarrow> val list \<Rightarrow> 'w state
     \<Rightarrow> val list \<times> error option \<times> nat list \<times> 'w state" where
  "Batch_step d i c results st =
     (case resolve_args i (ArgsFunc c) (Args c) results st of
        (args, st0) \<Rightarrow>
          if Affect c \<noteq> 0 then
            (case write_check d i (Query c) (Affect c) args st0 of
               (err, st1) \<Rightarrow> (results, err, [], st1))
          else read_command d i c args results st0)"

text \<open>
  Line 145: \<^verbatim>\<open>for i, command := range commands\<close>; every \<^verbatim>\<open>return results, err\<close> of the body
  leaves the loop.  \<open>defers\<close> is the stack of deferred \<^verbatim>\<open>rows.Close()\<close> calls, newest first.
\<close>

fun Batch_loop ::
  "'w driver \<Rightarrow> nat \<Rightarrow> Command list \<Rightarrow> val list \<Rightarrow> nat list \<Rightarrow> 'w state
     \<Rightarrow> val list \<times> error option \<times> nat list \<times> 'w state" where
  "Batch_loop d i [] results defers st = (results, None, defers, st)"
| "Batch_loop d i (c # cs) results defers st =
     (case Batch_step d i c results st of
        (results', Some err, opened, st') \<Rightarrow> (results', Some err, opened @ defers, st')
      | (results', None, opened, st') \<Rightarrow> Batch_loop d (Suc i) cs results' (opened @ defers) st')"

text \<open>The deferred \<^verbatim>\<open>rows.Close()\<close> calls run when the function returns, newest first.\<close>

fun run_defers :: "nat list \<Rightarrow> 'w state \<Rightarrow> 'w state" where
  "run_defers [] st = st"
| "run_defers (j # js) st = run_defers js (emit (CallClose j) st)"

text \<open>
  Lines 142-201.  Line 144: \<^verbatim>\<open>results := make([]interface{}, len(commands))\<close>, all nil.
\<close>

definition Batch ::
  "'w driver \<Rightarrow> Command list \<Rightarrow> 'w state \<Rightarrow> val list \<times> error option \<times> 'w state" where
  "Batch d commands st =
     (case Batch_loop d 0 commands (replicate (length commands) VNil) [] st of
        (results, err, defers, st') \<Rightarrow> (results, err, run_defers defers st'))"

section \<open>The earlier results-returning executor (\<^verbatim>\<open>func Batch\<close> with Scan, ScanOnce and Memo)\<close>

text \<open>
  The second \<^verbatim>\<open>func Batch\<close> of the repository (lines 104-163 of the source text that
  follows the README) names the fields \<^verbatim>\<open>Memo\<close>, \<^verbatim>\<open>Scan\<close> and \<^verbatim>\<open>ScanOnce\<close> and has no
  deferred \<^verbatim>\<open>rows.Close()\<close>: it closes the cursor after \<^verbatim>\<open>rows.Err()\<close> only.  Its
  definitions carry the suffix \<open>_s\<close>; lines 108-128 are the argument resolution and the
  write check above, lines 134-151 the read callbacks above.
\<close>

record Command_s =
  Query_s :: string
  ArgsFunc_s :: "(val list \<Rightarrow> val list) option"
  Args_s :: "val list"
  Memo_s :: val
  Scan_s :: "(val \<Rightarrow> row \<Rightarrow> val \<times> error option) option"
  ScanOnce_s :: "(row \<Rightarrow> val \<times> error option) option"
  Affect_s :: int64

text \<open>
  The branch \<^verbatim>\<open>command.Affect == 0\<close>: a callback error returns at once, with no call of
  \<^verbatim>\<open>rows.Close()\<close>; a fault of \<^verbatim>\<open>rows.Err()\<close> closes the cursor and returns the fault.
\<close>

definition read_command_s ::
  "'w driver \<Rightarrow> nat \<Rightarrow> Command_s \<Rightarrow> val list \<Rightarrow> val list \<Rightarrow> 'w state
     \<Rightarrow> val list \<times> error option \<times> 'w state" where
  "read_command_s d i c args results st =
     (case tx_Query d (Query_s c) args (world st) of
        (r, w') \<Rightarrow>
          let st1 = emit (CallQuery i (Query_s c) args) (st\<lparr>world := w'\<rparr>) in
          (case r of
             Inl err \<Rightarrow> (results, Some err, st1)
           | Inr rows \<Rightarrow>
               (case read_rows i (ScanOnce_s c) (Scan_s c) (Memo_s c) rows results st1 of
                  (results', Some err, exhausted, st2) \<Rightarrow> (results', Some err, st2)
                | (results', None, exhausted, st2) \<Rightarrow>
                    (case rows_Err rows exhausted of
                       Some err \<Rightarrow> (results', Some err, emit (CallClose i) st2)
                     | None \<Rightarrow> (results', rows_close rows, emit (CallClose i) st2)))))"

definition Batch_step_s ::
  "'w driver \<Rightarrow> nat \<Rightarrow> Command_s \<Rightarrow> val list \<Rightarrow> 'w state
     \<Rightarrow> val list \<times> error option \<times> 'w state" where
  "Batch_step_s d i c results st =
     (case resolve_args i (ArgsFunc_s c) (Args_s c) results st of
        (args, st0) \<Rightarrow>
          if Affect_s c \<noteq> 0 then
            (case write_check d i (Query_s c) (Affect_s c) args st0 of
               (err, st1) \<Rightarrow> (results, err, st1))
          else read_command_s d i c args results st0)"

fun Batch_loop_s ::
  "'w driver \<Rightarrow> nat \<Rightarrow> Command_s list \<Rightarrow> val list \<Rightarrow> 'w state
     \<Rightarrow> val list \<times> error option \<times> 'w state" where
  "Batch_loop_s d i [] results st = (results, None, st)"
| "Batch_loop_s d i (c # cs) results st =
     (case Batch_step_s d i c results st of
        (results', Some err, st') \<Rightarrow> (results', Some err, st')
      | (results', None, st') \<Rightarrow> Batch_loop_s d (Suc i) cs results' st')"

definition Batch_s ::
  "'w driver \<Rightarrow> Command_s list \<Rightarrow> 'w state \<Rightarrow> val list \<times> error option \<times> 'w state" where
  "Batch_s d commands st =
     Batch_loop_s d 0 commands (replicate (length commands) VNil) st"

section \<open>The transaction-owning executor (sqlbatch.go, \<^verbatim>\<open>func (handler Handler) Batch\<close>)\<close>

text \<open>
  The callbacks of this executor take no results and return only an error: what they read
  and write are variables captured by the caller's closures, which are part of \<open>'w\<close>.  Its
  definitions carry the suffix \<open>_h\<close>; its trace records the calls on the transaction and
  on the cursors.
\<close>

record 'w Command_h =
  Query_h :: string
  ArgsFunc_h :: "('w \<Rightarrow> val list \<times> 'w) option"
  Args_h :: "val list"
  ScanOnce_h :: "(row \<Rightarrow> 'w \<Rightarrow> error option \<times> 'w) option"
  Scan_h :: "(row \<Rightarrow> 'w \<Rightarrow> error option \<times> 'w) option"
  Affect_h :: int64

text \<open>Lines 83-88: \<^verbatim>\<open>for rows.Next() { err = command.Scan(rows.Scan); if err != nil { return err } }\<close>.\<close>

fun scan_loop_h ::
  "(row \<Rightarrow> 'w \<Rightarrow> error option \<times> 'w) \<Rightarrow> row list \<Rightarrow> 'w \<Rightarrow> error option \<times> 'w" where
  "scan_loop_h f [] w = (None, w)"
| "scan_loop_h f (r # rs) w =
     (case f r w of
        (Some err, w') \<Rightarrow> (Some err, w')
      | (None, w') \<Rightarrow> scan_loop_h f rs w')"

text \<open>Lines 75-89; the answer is the callback error, whether \<^verbatim>\<open>Next\<close> returned false, and the world.\<close>

definition scan_rows_h ::
  "'w Command_h \<Rightarrow> Rows \<Rightarrow> 'w \<Rightarrow> error option \<times> bool \<times> 'w" where
  "scan_rows_h c rows w =
     (case ScanOnce_h c of
        Some f \<Rightarrow>
          (case rows_data rows of
             [] \<Rightarrow> (None, True, w)
           | r # rest \<Rightarrow> (case f r w of (err, w') \<Rightarrow> (err, False, w')))
      | None \<Rightarrow>
          (case Scan_h c of
             Some g \<Rightarrow>
               (case scan_loop_h g (rows_data rows) w of
                  (Some err, w') \<Rightarrow> (Some err, False, w')
                | (None, w') \<Rightarrow> (None, True, w'))
           | None \<Rightarrow> (None, False, w)))"

text \<open>Lines 49-98: the body of the loop.\<close>

definition Batch_step_h ::
  "'w driver \<Rightarrow> nat \<Rightarrow> 'w Command_h \<Rightarrow> 'w state \<Rightarrow> error option \<times> 'w state" where
  "Batch_step_h d i c st =
     (case (case ArgsFunc_h c of
              None \<Rightarrow> (Args_h c, world st)
            | Some f \<Rightarrow> f (world st)) of
        (args, w0) \<Rightarrow>
          let st0 = st\<lparr>world := w0\<rparr> in
          if Affect_h c \<noteq> 0 then write_check d i (Query_h c) (Affect_h c) args st0
          else
            (case tx_Query d (Query_h c) args (world st0) of
               (r, w') \<Rightarrow>
                 let st1 = emit (CallQuery i (Query_h c) args) (st0\<lparr>world := w'\<rparr>) in
                 (case r of
                    Inl err \<Rightarrow> (Some err, st1)
                  | Inr rows \<Rightarrow>
                      (case scan_rows_h c rows (world st1) of
                         (Some err, exhausted, w2) \<Rightarrow> (Some err, st1\<lparr>world := w2\<rparr>)
                       | (None, exhausted, w2) \<Rightarrow>
                           let st2 = st1\<lparr>world := w2\<rparr> in
                           (case rows_Err rows exhausted of
                              Some err \<Rightarrow> (Some err, emit (CallClose i) st2)
                            | None \<Rightarrow> (rows_close rows, emit (CallClose i) st2))))))"

fun Batch_loop_h ::
  "'w driver \<Rightarrow> nat \<Rightarrow> 'w Command_h list \<Rightarrow> 'w state \<Rightarrow> error option \<times> 'w state" where
  "Batch_loop_h d i [] st = (None, st)"
| "Batch_loop_h d i (c # cs) st =
     (case Batch_step_h d i c st of
        (Some err, st') \<Rightarrow> (Some err, st')
      | (None, st') \<Rightarrow> Batch_loop_h d (Suc i) cs st')"

text \<open>
  Lines 41-103.  \<^verbatim>\<open>handler.db.Begin()\<close> opens the transaction or returns its error;
  \<^verbatim>\<open>defer tx.Rollback()\<close> runs at every later return; after the loop line 101 calls
  \<^verbatim>\<open>tx.Commit()\<close> as a statement, without reading its answer, and line 102 returns nil.
\<close>

definition Batch_h ::
  "'w driver \<Rightarrow> 'w Command_h list \<Rightarrow> 'w state \<Rightarrow> error option \<times> 'w state" where
  "Batch_h d commands st =
     (case db_Begin d (world st) of
        (Some err, w') \<Rightarrow> (Some err, st\<lparr>world := w'\<rparr>)
      | (None, w') \<Rightarrow>
          (case Batch_loop_h d 0 commands (st\<lparr>world := w', status := TxOpen\<rparr>) of
             (Some err, st1) \<Rightarrow> (Some err, snd (tx_Rollback d st1))
           | (None, st1) \<Rightarrow>
               (case tx_Commit d st1 of
                  (commit_answer, st2) \<Rightarrow> (None, snd (tx_Rollback d st2)))))"

section \<open>Observations on traces\<close>

text \<open>The command that an event belongs to; commit and rollback belong to none.\<close>

fun ev_index :: "event \<Rightarrow> nat option" where
  "ev_index (CallArgsFunc i rs) = Some i"
| "ev_index (CallExec i q a) = Some i"
| "ev_index (CallQuery i q a) = Some i"
| "ev_index (CallReadOne i r) = Some i"
| "ev_index (CallReadAll i m r) = Some i"
| "ev_index (CallClose i) = Some i"
| "ev_index TxCommit = None"
| "ev_index TxRollback = None"

fun is_close :: "event \<Rightarrow> bool" where
  "is_close (CallClose i) = True"
| "is_close _ = False"

fun readOne_at :: "nat \<Rightarrow> event \<Rightarrow> bool" where
  "readOne_at i (CallReadOne j r) = (j = i)"
| "readOne_at i _ = False"

fun readAll_at :: "nat \<Rightarrow> event \<Rightarrow> bool" where
  "readAll_at i (CallReadAll j m r) = (j = i)"
| "readAll_at i _ = False"

fun is_finish :: "event \<Rightarrow> bool" where
  "is_finish TxCommit = True"
| "is_finish TxRollback = True"
| "is_finish _ = False"

text \<open>
  \<open>grows P st st'\<close>: \<open>st'\<close> has the transaction status of \<open>st\<close> and its trace is the trace
  of \<open>st\<close> followed by events of commands whose index satisfies \<open>P\<close>.
\<close>

definition grows :: "(nat \<Rightarrow> bool) \<Rightarrow> 'w state \<Rightarrow> 'w state \<Rightarrow> bool" where
  "grows P st st' \<longleftrightarrow> status st' = status st \<and>
     (\<exists>es. trace st' = trace st @ es \<and> (\<forall>ev\<in>set es. \<exists>j. ev_index ev = Some j \<and> P j))"

abbreviation extends :: "nat \<Rightarrow> 'w state \<Rightarrow> 'w state \<Rightarrow> bool" where
  "extends i \<equiv> grows (\<lambda>j. j = i)"

text \<open>
  The error, if any, that the read callbacks return over the rows of a cursor: the error of
  the single call of the read-one callback, or the error that ends the read-all loop.
\<close>

definition callback_error ::
  "(row \<Rightarrow> val \<times> error option) option \<Rightarrow> (val \<Rightarrow> row \<Rightarrow> val \<times> error option) option
     \<Rightarrow> val \<Rightarrow> Rows \<Rightarrow> error option" where
  "callback_error readOne readAll init rows =
     (case readOne of
        Some f \<Rightarrow> (case rows_data rows of [] \<Rightarrow> None | r # rest \<Rightarrow> snd (f r))
      | None \<Rightarrow>
          (case readAll of
             Some g \<Rightarrow> fst (snd (readAll_loop g 0 init (rows_data rows) []))
           | None \<Rightarrow> None))"

text \<open>The arguments that lines 146-149 resolve for a command, given the results so far.\<close>

definition resolved :: "(val list \<Rightarrow> val list) option \<Rightarrow> val list \<Rightarrow> val list \<Rightarrow> val list" where
  "resolved argsFunc args results = (case argsFunc of None \<Rightarrow> args | Some f \<Rightarrow> f results)"

text \<open>The state in which the callbacks of a read command start: after \<^verbatim>\<open>tx.Query\<close> has answered.\<close>

definition query_state ::
  "nat \<Rightarrow> string \<Rightarrow> (val list \<Rightarrow> val list) option \<Rightarrow> val list \<Rightarrow> val list \<Rightarrow> 'w \<Rightarrow> 'w state
     \<Rightarrow> 'w state" where
  "query_state i query argsFunc args r w' st =
     emit (CallQuery i query (resolved argsFunc args r))
       ((snd (resolve_args i argsFunc args r st))\<lparr>world := w'\<rparr>)"

section \<open>A concrete database and concrete batches\<close>

text \<open>
  A database whose world counts the statements it has received.  A query answers with a
  cursor over two rows; a statement run with \<^verbatim>\<open>Exec\<close> affects one row when it has
  arguments and none when it has not.
\<close>

definition two_rows :: Rows where
  "two_rows = \<lparr>rows_data = [[VInt 10], [VInt 20]], rows_fault = None, rows_close = None\<rparr>"

definition counting_db :: "nat driver" where
  "counting_db =
     \<lparr>db_Begin = (\<lambda>w. (None, w)),
      tx_Exec = (\<lambda>q a w. (Inr (Inr (if a = [] then 0 else 1)), Suc w)),
      tx_Query = (\<lambda>q a w. (Inr two_rows, Suc w)),
      drv_Commit = (\<lambda>w. (None, w)),
      drv_Rollback = (\<lambda>w. (None, w))\<rparr>"

text \<open>The same database, except that its commit answers with an error.\<close>

definition failing_commit_db :: "nat driver" where
  "failing_commit_db = counting_db\<lparr>drv_Commit := (\<lambda>w. (Some (Err ''commit failed''), w))\<rparr>"

text \<open>The same database, except that the cursors of its queries are empty.\<close>

definition empty_db :: "nat driver" where
  "empty_db = counting_db\<lparr>tx_Query :=
     (\<lambda>q a w. (Inr \<lparr>rows_data = [], rows_fault = None, rows_close = None\<rparr>, Suc w))\<rparr>"

definition open_tx :: "nat state" where
  "open_tx = \<lparr>world = 0, status = TxOpen, trace = []\<rparr>"

definition no_tx :: "nat state" where
  "no_tx = \<lparr>world = 0, status = NoTx, trace = []\<rparr>"

definition first_col :: "row \<Rightarrow> val" where
  "first_col r = (case r of [] \<Rightarrow> VNil | v # vs \<Rightarrow> v)"

definition collect :: "val \<Rightarrow> row \<Rightarrow> val \<times> error option" where
  "collect memo r = (case memo of VList vs \<Rightarrow> (VList (vs @ [first_col r]), None) | _ \<Rightarrow> (memo, None))"

text \<open>A read command that returns the first column of the first row.\<close>

definition read_one_cmd :: Command where
  "read_one_cmd =
     \<lparr>Query = ''SELECT id FROM t'', ArgsFunc = None, Args = [], Init = VNil,
      ReadAll = Some collect, ReadOne = Some (\<lambda>r. (first_col r, None)), Affect = 0\<rparr>"

text \<open>A read command that collects the first column of every row.\<close>

definition read_all_cmd :: Command where
  "read_all_cmd =
     \<lparr>Query = ''SELECT id FROM t'', ArgsFunc = None, Args = [], Init = VList [],
      ReadAll = Some collect, ReadOne = None, Affect = 0\<rparr>"

text \<open>A read command whose read-one callback returns a value together with an error.\<close>

definition bad_decode_cmd :: Command where
  "bad_decode_cmd =
     \<lparr>Query = ''SELECT id FROM t'', ArgsFunc = None, Args = [], Init = VNil,
      ReadAll = None, ReadOne = Some (\<lambda>r. (VInt 7, Some (Err ''decode''))), Affect = 0\<rparr>"

text \<open>
  A write command that expects one affected row and takes its argument from the result
  of the first command of the batch.
\<close>

definition update_cmd :: Command where
  "update_cmd =
     \<lparr>Query = ''UPDATE t SET seen = 1 WHERE id = $1'', ArgsFunc = Some (take 1), Args = [],
      Init = VNil, ReadAll = None, ReadOne = None, Affect = 1\<rparr>"

text \<open>A write command that expects one affected row and has no arguments.\<close>

definition lonely_update_cmd :: Command where
  "lonely_update_cmd =
     \<lparr>Query = ''UPDATE t SET seen = 1'', ArgsFunc = None, Args = [],
      Init = VNil, ReadAll = None, ReadOne = None, Affect = 1\<rparr>"

text \<open>Commands of the earlier executor: a failing decode and a write without arguments.\<close>

definition bad_decode_cmd_s :: Command_s where
  "bad_decode_cmd_s =
     \<lparr>Query_s = ''SELECT id FROM t'', ArgsFunc_s = None, Args_s = [], Memo_s = VNil,
      Scan_s = None, ScanOnce_s = Some (\<lambda>r. (VInt 7, Some (Err ''decode''))), Affect_s = 0\<rparr>"

definition lonely_update_cmd_s :: Command_s where
  "lonely_update_cmd_s =
     \<lparr>Query_s = ''UPDATE t SET seen = 1'', ArgsFunc_s = None, Args_s = [],
      Memo_s = VNil, Scan_s = None, ScanOnce_s = None, Affect_s = 1\<rparr>"

text \<open>A command of the transaction-owning executor: a write with one argument.\<close>

definition insert_cmd_h :: "nat Command_h" where
  "insert_cmd_h =
     \<lparr>Query_h = ''INSERT INTO t VALUES ($1)'', ArgsFunc_h = None, Args_h = [VInt 1],
      ScanOnce_h = None, Scan_h = None, Affect_h = 1\<rparr>"

text \<open>
  The same database, except that the cursors of its queries deliver one row and then
  report a fault.
\<close>

definition faulty_rows :: Rows where
  "faulty_rows =
     \<lparr>rows_data = [[VInt 10]], rows_fault = Some (Err ''connection lost''), rows_close = None\<rparr>"

definition faulty_db :: "nat driver" where
  "faulty_db = counting_db\<lparr>tx_Query := (\<lambda>q a w. (Inr faulty_rows, Suc w))\<rparr>"

definition read_all_cmd_s :: Command_s where
  "read_all_cmd_s =
     \<lparr>Query_s = ''SELECT id FROM t'', ArgsFunc_s = None, Args_s = [], Memo_s = VList [],
      Scan_s = Some collect, ScanOnce_s = None, Affect_s = 0\<rparr>"

definition read_one_cmd_s :: Command_s where
  "read_one_cmd_s =
     \<lparr>Query_s = ''SELECT id FROM t'', ArgsFunc_s = None, Args_s = [], Memo_s = VNil,
      Scan_s = None, ScanOnce_s = Some (\<lambda>r. (first_col r, None)), Affect_s = 0\<rparr>"

definition lonely_update_cmd_h :: "nat Command_h" where
  "lonely_update_cmd_h =
     \<lparr>Query_h = ''UPDATE t SET seen = 1'', ArgsFunc_h = None, Args_h = [],
      ScanOnce_h = None, Scan_h = None, Affect_h = 1\<rparr>"

section \<open>Shared facts: traces, arguments, the write check and the read callbacks\<close>

lemma emit_simps [simp]:
  "trace (emit ev st) = trace st @ [ev]"
  "world (emit ev st) = world st"
  "status (emit ev st) = status st"
  by (simp_all add: emit_def)

lemma grows_refl [simp]: "grows P st st"
  by (simp add: grows_def)

lemma grows_mono: "grows P st st' \<Longrightarrow> (\<And>j. P j \<Longrightarrow> Q j) \<Longrightarrow> grows Q st st'"
  unfolding grows_def by blast

lemma grows_trans: "grows P a b \<Longrightarrow> grows P b c \<Longrightarrow> grows P a c"
  by (auto simp: grows_def)

lemma extends_emit:
  "extends i st st' \<Longrightarrow> ev_index ev = Some i \<Longrightarrow> extends i st (emit ev st')"
  by (auto simp: grows_def)

lemma grows_world [simp]: "grows P st (st'\<lparr>world := w\<rparr>) = grows P st st'"
  by (simp add: grows_def)

lemma grows_world2 [simp]: "grows P (st\<lparr>world := w\<rparr>) st' = grows P st st'"
  by (simp add: grows_def)

lemma filter_grows_other:
  assumes g: "grows Q st st'" and P: "\<And>ev. P ev \<Longrightarrow> \<exists>j. ev_index ev = Some j \<and> \<not> Q j"
  shows "filter P (trace st') = filter P (trace st)"
proof -
  from g obtain es where t: "trace st' = trace st @ es"
    and q: "\<forall>ev\<in>set es. \<exists>j. ev_index ev = Some j \<and> Q j" by (auto simp: grows_def)
  have "filter P es = []" using q P by (fastforce simp: filter_empty_conv)
  then show ?thesis using t by simp
qed

lemma grows_no_finish:
  assumes g: "grows Q st st'"
  shows "filter is_finish (drop (length (trace st)) (trace st')) = []"
proof -
  from g obtain es where t: "trace st' = trace st @ es"
    and q: "\<forall>ev\<in>set es. \<exists>j. ev_index ev = Some j \<and> Q j" by (auto simp: grows_def)
  have "\<And>ev. ev \<in> set es \<Longrightarrow> \<not> is_finish ev"
  proof -
    fix ev assume "ev \<in> set es"
    then obtain j where "ev_index ev = Some j" using q by blast
    then show "\<not> is_finish ev" by (cases ev) simp_all
  qed
  then have "filter is_finish es = []" by (simp add: filter_empty_conv)
  then show ?thesis using t by simp
qed

lemma readOne_at_index: "readOne_at i ev \<Longrightarrow> ev_index ev = Some i \<and> \<not> is_close ev"
  by (cases ev) simp_all

lemma readAll_at_index: "readAll_at i ev \<Longrightarrow> ev_index ev = Some i \<and> \<not> is_close ev"
  by (cases ev) simp_all

lemma expected_rows_max: "sint (expected_rows a) = max (sint a) 0"
  by (simp add: expected_rows_def max_def)

lemma resolve_args_extends: "extends i st (snd (resolve_args i af a r st))"
  by (auto simp: resolve_args_def grows_def split: option.splits)

lemma resolve_args_world [simp]: "world (snd (resolve_args i af a r st)) = world st"
  by (auto simp: resolve_args_def split: option.splits)

lemma resolve_args_fst: "fst (resolve_args i af a r st) = resolved af a r"
  by (simp add: resolve_args_def resolved_def split: option.splits)

lemma resolve_args_split:
  obtains st0 where "resolve_args i af a r st = (resolved af a r, st0)"
    and "world st0 = world st" and "extends i st st0"
  using resolve_args_fst[of i af a r st] resolve_args_world[of i af a r st]
    resolve_args_extends[of i st af a r]
  by (cases "resolve_args i af a r st") simp

lemma write_check_extends: "extends i st (snd (write_check d i q af a st))"
  by (auto simp: write_check_def grows_def Let_def split: prod.splits sum.splits)

lemma write_check_error:
  assumes "tx_Exec d q a (world st) = (Inr (Inr affected), w')"
  shows "fst (write_check d i q af a st) =
           (if expected_rows af \<noteq> affected
            then Some (ExpectedDifferentAffectedRows (expected_rows af) affected q)
            else None)"
  using assms by (simp add: write_check_def Let_def)

lemma readAll_loop_trace:
  "\<exists>es. snd (snd (readAll_loop f i m rs tr)) = tr @ es \<and> (\<forall>ev\<in>set es. ev_index ev = Some i)"
proof (induction rs arbitrary: m tr)
  case Nil
  show ?case by simp
next
  case (Cons r rs)
  obtain m' e where fm: "f m r = (m', e)" by (cases "f m r")
  show ?case
  proof (cases e)
    case None
    from Cons.IH[of m' "tr @ [CallReadAll i m r]"] obtain es where
      "snd (snd (readAll_loop f i m' rs (tr @ [CallReadAll i m r]))) = (tr @ [CallReadAll i m r]) @ es"
      "\<forall>ev\<in>set es. ev_index ev = Some i" by blast
    then show ?thesis using fm None by (intro exI[of _ "CallReadAll i m r # es"]) simp
  next
    case (Some err)
    then show ?thesis using fm by simp
  qed
qed

lemma readAll_loop_traceD:
  "readAll_loop f i m rs tr = (m', e, tr') \<Longrightarrow>
     \<exists>es. tr' = tr @ es \<and> (\<forall>ev\<in>set es. ev_index ev = Some i)"
  using readAll_loop_trace[of f i m rs tr] by simp

lemma readAll_loop_error:
  "fst (snd (readAll_loop g i m rs tr)) = fst (snd (readAll_loop g i' m rs tr'))"
proof (induction rs arbitrary: m tr tr')
  case Nil
  show ?case by simp
next
  case (Cons r rs)
  obtain m' e where f: "g m r = (m', e)" by (cases "g m r")
  show ?case
  proof (cases e)
    case None
    then show ?thesis
      using f Cons.IH[of m' "tr @ [CallReadAll i m r]" "tr' @ [CallReadAll i' m r]"]
      by simp
  next
    case (Some err)
    then show ?thesis using f by simp
  qed
qed

lemma readAll_loop_errorD:
  "readAll_loop g i m rs tr = (m', e, tr') \<Longrightarrow> fst (snd (readAll_loop g 0 m rs [])) = e"
  using readAll_loop_error[of g 0 m rs "[]" i tr] by simp

lemma readAll_loop_fold:
  assumes "fst (snd (readAll_loop g 0 m rs [])) = None"
  shows "readAll_loop g i m rs tr =
     (foldl (\<lambda>m r. fst (g m r)) m rs, None,
      tr @ map (\<lambda>k. CallReadAll i (foldl (\<lambda>m r. fst (g m r)) m (take k rs)) (rs ! k)) [0..<length rs])"
  using assms
proof (induction rs arbitrary: m tr)
  case Nil
  show ?case by simp
next
  case (Cons r rs)
  obtain m' e where f: "g m r = (m', e)" by (cases "g m r")
  have e: "e = None" using Cons.prems f by (cases e) simp_all
  have ok: "fst (snd (readAll_loop g 0 m' rs [])) = None"
    using Cons.prems f e readAll_loop_error[of g 0 m' rs "[CallReadAll 0 m r]" 0 "[]"] by simp
  have upt: "[0..<Suc (length rs)] = 0 # map Suc [0..<length rs]"
    by (simp add: upt_conv_Cons map_Suc_upt del: upt_Suc)
  show ?case
    using f e Cons.IH[OF ok, of "tr @ [CallReadAll i m r]"]
    by (simp add: upt comp_def del: upt_Suc)
qed

lemma read_rows_extends: "extends i st (snd (snd (snd (read_rows i ro ra ini rows r st))))"
  by (auto simp: read_rows_def grows_def split: option.splits list.splits prod.splits
        dest: readAll_loop_traceD)

lemma read_rows_length: "length (fst (read_rows i ro ra ini rows r st)) = length r"
  by (auto simp: read_rows_def split: option.splits list.splits prod.splits)

lemma read_rows_nth: "j \<noteq> i \<Longrightarrow> fst (read_rows i ro ra ini rows r st) ! j = r ! j"
  by (auto simp: read_rows_def split: option.splits list.splits prod.splits)

lemma read_rows_error:
  "fst (snd (read_rows i ro ra ini rows r st)) = callback_error ro ra ini rows"
  by (auto simp: read_rows_def callback_error_def split: option.splits list.splits prod.splits
        dest: readAll_loop_errorD)

lemma read_rows_failed:
  assumes "callback_error ro ra ini rows = Some err"
  shows "fst (read_rows i ro ra ini rows r st) = r"
  using assms
  by (auto simp: read_rows_def callback_error_def split: option.splits list.splits prod.splits
        dest: readAll_loop_errorD)

lemma read_rows_all:
  assumes cb: "callback_error None (Some g) ini rows = None"
  shows "read_rows i None (Some g) ini rows r st =
     (r[i := foldl (\<lambda>m r. fst (g m r)) ini (rows_data rows)], None, True,
      st\<lparr>trace := trace st @
           map (\<lambda>k. CallReadAll i (foldl (\<lambda>m r. fst (g m r)) ini (take k (rows_data rows)))
                      (rows_data rows ! k)) [0..<length (rows_data rows)]\<rparr>)"
proof -
  have ok: "fst (snd (readAll_loop g 0 ini (rows_data rows) [])) = None"
    using cb by (simp add: callback_error_def)
  show ?thesis by (simp add: read_rows_def readAll_loop_fold[OF ok])
qed

lemma read_rows_one:
  shows "filter (readOne_at i) (trace (snd (snd (snd (read_rows i (Some f) ra ini rows r st))))) =
           filter (readOne_at i) (trace st) @ map (CallReadOne i) (take 1 (rows_data rows))"
    and "filter (readAll_at i) (trace (snd (snd (snd (read_rows i (Some f) ra ini rows r st))))) =
           filter (readAll_at i) (trace st)"
    and "rows_data rows = [] \<Longrightarrow> fst (read_rows i (Some f) ra ini rows r st) = r"
  by (auto simp: read_rows_def split: list.splits prod.splits option.splits)

lemma query_state_filter:
  assumes "\<And>j rs. \<not> P (CallArgsFunc j rs)" and "\<And>j q a. \<not> P (CallQuery j q a)"
  shows "filter P (trace (query_state i q af a r w' st)) = filter P (trace st)"
  using assms by (simp add: query_state_def resolve_args_def split: option.splits)

lemma query_state_extends: "extends i st (query_state i q af a r w' st)"
  unfolding query_state_def
  by (rule extends_emit) (simp_all add: resolve_args_extends)

section \<open>Facts about the results-returning executor\<close>

lemma read_command_extends: "extends i st (snd (snd (snd (read_command d i c a r st))))"
proof -
  obtain res w' where q: "tx_Query d (Query c) a (world st) = (res, w')"
    by (cases "tx_Query d (Query c) a (world st)")
  let ?st1 = "emit (CallQuery i (Query c) a) (st\<lparr>world := w'\<rparr>)"
  have e1: "extends i st ?st1" by (simp add: extends_emit)
  show ?thesis
  proof (cases res)
    case (Inl err)
    then show ?thesis using q e1 by (simp add: read_command_def)
  next
    case (Inr rows)
    obtain r' e ex st2 where
      rr: "read_rows i (ReadOne c) (ReadAll c) (Init c) rows r ?st1 = (r', e, ex, st2)"
      by (cases "read_rows i (ReadOne c) (ReadAll c) (Init c) rows r ?st1") auto
    have e2: "extends i st st2"
      using read_rows_extends[of i ?st1 "ReadOne c" "ReadAll c" "Init c" rows r] rr e1
      by (auto intro: grows_trans)
    then have e3: "extends i st (emit (CallClose i) st2)" by (simp add: extends_emit)
    show ?thesis using q Inr rr e2 e3
      by (auto simp: read_command_def split: option.splits)
  qed
qed

lemma step_extends: "extends i st (snd (snd (snd (Batch_step d i c r st))))"
proof -
  obtain st0 where ra: "resolve_args i (ArgsFunc c) (Args c) r st = (resolved (ArgsFunc c) (Args c) r, st0)"
    and e0: "extends i st st0" by (rule resolve_args_split)
  show ?thesis
  proof (cases "Affect c \<noteq> 0")
    case True
    then show ?thesis
      using ra e0 write_check_extends[of i st0 d "Query c" "Affect c" "resolved (ArgsFunc c) (Args c) r"]
      by (auto simp: Batch_step_def split: prod.splits intro: grows_trans)
  next
    case False
    then show ?thesis
      using ra e0 read_command_extends[of i st0 d c "resolved (ArgsFunc c) (Args c) r" r]
      by (auto simp: Batch_step_def intro: grows_trans)
  qed
qed

lemma read_command_length: "length (fst (read_command d i c a r st)) = length r"
proof -
  have "\<And>rows st1 r' e ex st2.
      read_rows i (ReadOne c) (ReadAll c) (Init c) rows r st1 = (r', e, ex, st2) \<Longrightarrow> length r' = length r"
    using read_rows_length[of i "ReadOne c" "ReadAll c" "Init c" _ r] by (metis fst_conv)
  then show ?thesis
    by (auto simp: read_command_def Let_def split: prod.splits sum.splits option.splits)
qed

lemma read_command_nth: "j \<noteq> i \<Longrightarrow> fst (read_command d i c a r st) ! j = r ! j"
proof -
  assume ji: "j \<noteq> i"
  have "\<And>rows st1 r' e ex st2.
      read_rows i (ReadOne c) (ReadAll c) (Init c) rows r st1 = (r', e, ex, st2) \<Longrightarrow> r' ! j = r ! j"
    using read_rows_nth[OF ji, of "ReadOne c" "ReadAll c" "Init c" _ r] by (metis fst_conv)
  then show ?thesis
    by (auto simp: read_command_def Let_def split: prod.splits sum.splits option.splits)
qed

lemma read_command_opened: "set (fst (snd (snd (read_command d i c a r st)))) \<subseteq> {i}"
  by (auto simp: read_command_def Let_def split: prod.splits sum.splits option.splits)

lemma step_length: "length (fst (Batch_step d i c r st)) = length r"
  using read_command_length[of d i c _ r]
  by (auto simp: Batch_step_def split: prod.splits)

lemma step_nth: "j \<noteq> i \<Longrightarrow> fst (Batch_step d i c r st) ! j = r ! j"
  using read_command_nth[of j i d c _ r]
  by (auto simp: Batch_step_def split: prod.splits)

lemma step_opened: "set (fst (snd (snd (Batch_step d i c r st)))) \<subseteq> {i}"
  using read_command_opened[of d i c _ r]
  by (auto simp: Batch_step_def split: prod.splits)

lemma loop_length: "length (fst (Batch_loop d i cs r df st)) = length r"
proof (induction cs arbitrary: i r df st)
  case Nil
  show ?case by simp
next
  case (Cons c cs)
  obtain r' e op st' where s: "Batch_step d i c r st = (r', e, op, st')"
    by (cases "Batch_step d i c r st") auto
  have l: "length r' = length r" using step_length[of d i c r st] s by simp
  show ?case using s l Cons.IH[of "Suc i" r' "op @ df" st'] by (cases e) simp_all
qed

lemma loop_nth:
  "j < i \<or> i + length cs \<le> j \<Longrightarrow> fst (Batch_loop d i cs r df st) ! j = r ! j"
proof (induction cs arbitrary: i r df st)
  case Nil
  show ?case by simp
next
  case (Cons c cs)
  obtain r' e op st' where s: "Batch_step d i c r st = (r', e, op, st')"
    by (cases "Batch_step d i c r st") auto
  from Cons.prems have ji: "j \<noteq> i" and nx: "j < Suc i \<or> Suc i + length cs \<le> j" by auto
  have l: "r' ! j = r ! j" using step_nth[OF ji, of d c r st] s by simp
  show ?case using s l Cons.IH[OF nx, of r' "op @ df" st'] by (cases e) simp_all
qed

lemma loop_defers:
  "set (fst (snd (snd (Batch_loop d i cs r df st)))) \<subseteq> set df \<union> {i..<i + length cs}"
proof (induction cs arbitrary: i r df st)
  case Nil
  show ?case by simp
next
  case (Cons c cs)
  obtain r' e op st' where s: "Batch_step d i c r st = (r', e, op, st')"
    by (cases "Batch_step d i c r st") auto
  have o: "set op \<subseteq> {i}" using step_opened[of d i c r st] s by simp
  then have o': "set (op @ df) \<subseteq> set df \<union> {i..<i + length (c # cs)}" by auto
  show ?case
  proof (cases e)
    case None
    have "set (fst (snd (snd (Batch_loop d (Suc i) cs r' (op @ df) st'))))
            \<subseteq> set (op @ df) \<union> {Suc i..<Suc i + length cs}"
      by (rule Cons.IH)
    also have "\<dots> \<subseteq> set df \<union> {i..<i + length (c # cs)}" using o' by auto
    finally show ?thesis using s None by simp
  next
    case (Some err)
    then show ?thesis using s o' by simp
  qed
qed

lemma loop_grows:
  "grows (\<lambda>j. i \<le> j \<and> j < i + length cs) st (snd (snd (snd (Batch_loop d i cs r df st))))"
proof (induction cs arbitrary: i r df st)
  case Nil
  show ?case by simp
next
  case (Cons c cs)
  obtain r' e op st' where s: "Batch_step d i c r st = (r', e, op, st')"
    by (cases "Batch_step d i c r st") auto
  have g1: "grows (\<lambda>j. i \<le> j \<and> j < i + length (c # cs)) st st'"
    using step_extends[of i st d c r] s by (auto intro: grows_mono)
  show ?case
  proof (cases e)
    case None
    have "grows (\<lambda>j. i \<le> j \<and> j < i + length (c # cs)) st'
            (snd (snd (snd (Batch_loop d (Suc i) cs r' (op @ df) st'))))"
      using Cons.IH[of "Suc i" st' r' "op @ df"] by (auto intro: grows_mono)
    then show ?thesis using s None g1 by (auto intro: grows_trans)
  next
    case (Some err)
    then show ?thesis using s g1 by simp
  qed
qed

lemma loop_append:
  "Batch_loop d i (xs @ ys) r df st =
     (case Batch_loop d i xs r df st of
        (r', Some err, df', st') \<Rightarrow> (r', Some err, df', st')
      | (r', None, df', st') \<Rightarrow> Batch_loop d (i + length xs) ys r' df' st')"
proof (induction xs arbitrary: i r df st)
  case Nil
  show ?case by simp
next
  case (Cons c cs)
  obtain r' e op st' where s: "Batch_step d i c r st = (r', e, op, st')"
    by (cases "Batch_step d i c r st") auto
  obtain r2 e2 df2 st2 where l: "Batch_loop d (Suc i) cs r' (op @ df) st' = (r2, e2, df2, st2)"
    by (cases "Batch_loop d (Suc i) cs r' (op @ df) st'") auto
  show ?case
  proof (cases e)
    case None
    then show ?thesis using s l Cons.IH[of "Suc i" r' "op @ df" st'] by (cases e2) simp_all
  next
    case (Some err)
    then show ?thesis using s by simp
  qed
qed

lemma run_defers_trace: "trace (run_defers df st) = trace st @ map CallClose df"
  by (induction df arbitrary: st) simp_all

lemma run_defers_status [simp]: "status (run_defers df st) = status st"
  by (induction df arbitrary: st) simp_all

lemma run_defers_world [simp]: "world (run_defers df st) = world st"
  by (induction df arbitrary: st) simp_all

lemma prefix_nil:
  assumes "Batch_loop d 0 pre (replicate n VNil) [] st = (r, e, df, st1)"
  shows "length r = n" and "\<And>j. length pre \<le> j \<Longrightarrow> j < n \<Longrightarrow> r ! j = VNil"
proof -
  show "length r = n" using loop_length[of d 0 pre "replicate n VNil" "[]" st] assms by simp
  fix j assume "length pre \<le> j" "j < n"
  then show "r ! j = VNil"
    using loop_nth[of j 0 pre d "replicate n VNil" "[]" st] assms by simp
qed

lemma Batch_at:
  assumes pre: "Batch_loop d 0 pre (replicate (length (pre @ c # post)) VNil) [] st = (r, None, df, st1)"
    and step: "Batch_step d (length pre) c r st1 = (r2, e2, op, st2)"
  shows "Batch d (pre @ c # post) st =
     (case e2 of
        Some err \<Rightarrow> (r2, Some err, run_defers (op @ df) st2)
      | None \<Rightarrow>
          (case Batch_loop d (Suc (length pre)) post r2 (op @ df) st2 of
             (r3, e3, df3, st3) \<Rightarrow> (r3, e3, run_defers df3 st3)))"
  using pre step by (cases e2) (simp_all add: Batch_def loop_append)

lemma Batch_filter:
  assumes t0: "trace st = []"
    and pre: "Batch_loop d 0 pre (replicate (length (pre @ c # post)) VNil) [] st = (r, None, df, st1)"
    and step: "Batch_step d (length pre) c r st1 = (r2, e2, op, st2)"
    and P: "\<And>ev. P ev \<Longrightarrow> ev_index ev = Some (length pre) \<and> \<not> is_close ev"
  shows "filter P (trace (snd (snd (Batch d (pre @ c # post) st)))) = filter P (trace st2)"
    and "filter P (trace st1) = []"
proof -
  have cl: "\<And>js. filter P (map CallClose js) = []"
    using P by (fastforce simp: filter_empty_conv)
  have "filter P (trace st1) = filter P (trace st)"
    using loop_grows[of 0 pre st d "replicate (length (pre @ c # post)) VNil" "[]"] pre P
    by (intro filter_grows_other[where Q="\<lambda>j. 0 \<le> j \<and> j < 0 + length pre"]) auto
  then show "filter P (trace st1) = []" using t0 by simp
  show "filter P (trace (snd (snd (Batch d (pre @ c # post) st)))) = filter P (trace st2)"
  proof (cases e2)
    case (Some err)
    then show ?thesis using Batch_at[OF pre step] cl by (simp add: run_defers_trace)
  next
    case None
    obtain r3 e3 df3 st3 where
      l: "Batch_loop d (Suc (length pre)) post r2 (op @ df) st2 = (r3, e3, df3, st3)"
      by (cases "Batch_loop d (Suc (length pre)) post r2 (op @ df) st2") auto
    have "filter P (trace st3) = filter P (trace st2)"
      using loop_grows[of "Suc (length pre)" post st2 d r2 "op @ df"] l P
      by (intro filter_grows_other
            [where Q="\<lambda>j. Suc (length pre) \<le> j \<and> j < Suc (length pre) + length post"]) auto
    then show ?thesis using Batch_at[OF pre step] None l cl by (simp add: run_defers_trace)
  qed
qed

lemma Batch_slot:
  assumes pre: "Batch_loop d 0 pre (replicate (length (pre @ c # post)) VNil) [] st = (r, None, df, st1)"
    and step: "Batch_step d (length pre) c r st1 = (r2, e2, op, st2)"
  shows "fst (Batch d (pre @ c # post) st) ! length pre = r2 ! length pre"
proof (cases e2)
  case (Some err)
  then show ?thesis using Batch_at[OF pre step] by simp
next
  case None
  obtain r3 e3 df3 st3 where
    l: "Batch_loop d (Suc (length pre)) post r2 (op @ df) st2 = (r3, e3, df3, st3)"
    by (cases "Batch_loop d (Suc (length pre)) post r2 (op @ df) st2") auto
  have "r3 ! length pre = r2 ! length pre"
    using loop_nth[of "length pre" "Suc (length pre)" post d r2 "op @ df" st2] l by simp
  then show ?thesis using Batch_at[OF pre step] None l by simp
qed

lemma write_step:
  assumes aff: "Affect c \<noteq> 0"
  shows "fst (Batch_step d i c r st) = r"
  using aff by (simp add: Batch_step_def split: prod.splits)

lemma write_step_err:
  assumes aff: "Affect c \<noteq> 0"
    and ex: "tx_Exec d (Query c) (resolved (ArgsFunc c) (Args c) r) (world st)
               = (Inr (Inr affected), w')"
  shows "fst (snd (Batch_step d i c r st)) =
           (if expected_rows (Affect c) \<noteq> affected
            then Some (ExpectedDifferentAffectedRows (expected_rows (Affect c)) affected (Query c))
            else None)"
proof -
  obtain st0 where ra: "resolve_args i (ArgsFunc c) (Args c) r st = (resolved (ArgsFunc c) (Args c) r, st0)"
    and w0: "world st0 = world st" by (rule resolve_args_split)
  have ex': "tx_Exec d (Query c) (resolved (ArgsFunc c) (Args c) r) (world st0) = (Inr (Inr affected), w')"
    using ex w0 by simp
  obtain e st1 where wc: "write_check d i (Query c) (Affect c) (resolved (ArgsFunc c) (Args c) r) st0 = (e, st1)"
    by (cases "write_check d i (Query c) (Affect c) (resolved (ArgsFunc c) (Args c) r) st0")
  show ?thesis
    using aff ra wc write_check_error[OF ex', of i "Affect c"]
    by (simp add: Batch_step_def)
qed

lemma read_step_shape:
  assumes aff: "Affect c = 0"
    and q: "tx_Query d (Query c) (resolved (ArgsFunc c) (Args c) r) (world st) = (Inr rows, w')"
    and rr: "read_rows i (ReadOne c) (ReadAll c) (Init c) rows r
               (query_state i (Query c) (ArgsFunc c) (Args c) r w' st) = (r', e, ex, st2)"
  shows "Batch_step d i c r st =
     (case e of
        Some err \<Rightarrow> (r', Some err, [i], st2)
      | None \<Rightarrow>
          (case rows_Err rows ex of
             Some err \<Rightarrow> (r', Some err, [i], st2)
           | None \<Rightarrow>
               (case rows_close rows of
                  Some err \<Rightarrow> (r', Some err, [i], emit (CallClose i) st2)
                | None \<Rightarrow> (r', None, [i], emit (CallClose i) st2))))"
proof -
  obtain st0 where ra: "resolve_args i (ArgsFunc c) (Args c) r st = (resolved (ArgsFunc c) (Args c) r, st0)"
    and w0: "world st0 = world st" by (rule resolve_args_split)
  have rr': "read_rows i (ReadOne c) (ReadAll c) (Init c) rows r
               (emit (CallQuery i (Query c) (resolved (ArgsFunc c) (Args c) r)) (st0\<lparr>world := w'\<rparr>))
             = (r', e, ex, st2)"
    using rr ra by (simp add: query_state_def)
  show ?thesis
    using aff ra w0 q rr' by (cases e) (simp_all add: Batch_step_def read_command_def)
qed

lemma read_step_facts:
  assumes aff: "Affect c = 0"
    and q: "tx_Query d (Query c) (resolved (ArgsFunc c) (Args c) r) (world st) = (Inr rows, w')"
    and rr: "read_rows i (ReadOne c) (ReadAll c) (Init c) rows r
               (query_state i (Query c) (ArgsFunc c) (Args c) r w' st) = (r', e, ex, st2)"
  shows "fst (Batch_step d i c r st) = r'"
    and "e \<noteq> None \<Longrightarrow> fst (snd (Batch_step d i c r st)) = e"
    and "trace (snd (snd (snd (Batch_step d i c r st)))) = trace st2
         \<or> trace (snd (snd (snd (Batch_step d i c r st)))) = trace st2 @ [CallClose i]"
proof -
  note B = read_step_shape[OF aff q rr]
  show "fst (Batch_step d i c r st) = r'"
    unfolding B by (simp split: option.splits)
  show "e \<noteq> None \<Longrightarrow> fst (snd (Batch_step d i c r st)) = e"
    unfolding B by (auto split: option.splits)
  show "trace (snd (snd (snd (Batch_step d i c r st)))) = trace st2
         \<or> trace (snd (snd (snd (Batch_step d i c r st)))) = trace st2 @ [CallClose i]"
    unfolding B by (simp split: option.splits)
qed

lemma read_step_filter:
  assumes aff: "Affect c = 0"
    and q: "tx_Query d (Query c) (resolved (ArgsFunc c) (Args c) r) (world st) = (Inr rows, w')"
    and P: "\<And>j. \<not> P (CallClose j)"
  shows "filter P (trace (snd (snd (snd (Batch_step d i c r st))))) =
           filter P (trace (snd (snd (snd (read_rows i (ReadOne c) (ReadAll c) (Init c) rows r
              (query_state i (Query c) (ArgsFunc c) (Args c) r w' st))))))"
proof -
  obtain r' e ex st2 where rr: "read_rows i (ReadOne c) (ReadAll c) (Init c) rows r
               (query_state i (Query c) (ArgsFunc c) (Args c) r w' st) = (r', e, ex, st2)"
    by (cases "read_rows i (ReadOne c) (ReadAll c) (Init c) rows r
               (query_state i (Query c) (ArgsFunc c) (Args c) r w' st)") auto
  show ?thesis using read_step_facts(3)[OF aff q rr] rr P by auto
qed

lemma read_step_failed:
  assumes aff: "Affect c = 0"
    and q: "tx_Query d (Query c) (resolved (ArgsFunc c) (Args c) r) (world st) = (Inr rows, w')"
    and cb: "callback_error (ReadOne c) (ReadAll c) (Init c) rows = Some err"
  shows "fst (Batch_step d i c r st) = r \<and> fst (snd (Batch_step d i c r st)) = Some err"
proof -
  obtain r' e ex st2 where rr: "read_rows i (ReadOne c) (ReadAll c) (Init c) rows r
               (query_state i (Query c) (ArgsFunc c) (Args c) r w' st) = (r', e, ex, st2)"
    by (cases "read_rows i (ReadOne c) (ReadAll c) (Init c) rows r
               (query_state i (Query c) (ArgsFunc c) (Args c) r w' st)") auto
  have "r' = r" using read_rows_failed[OF cb, of i r] rr by (metis fst_conv)
  moreover have "e = Some err"
    using read_rows_error[of i "ReadOne c" "ReadAll c" "Init c" rows r] rr cb
    by (metis fst_conv snd_conv)
  ultimately show ?thesis using read_step_facts(1,2)[OF aff q rr] by simp
qed

lemma read_step_all:
  assumes aff: "Affect c = 0"
    and q: "tx_Query d (Query c) (resolved (ArgsFunc c) (Args c) r) (world st) = (Inr rows, w')"
    and one: "ReadOne c = None" and all: "ReadAll c = Some g"
    and cb: "callback_error (ReadOne c) (ReadAll c) (Init c) rows = None"
  shows "fst (Batch_step d i c r st) = r[i := foldl (\<lambda>m r. fst (g m r)) (Init c) (rows_data rows)]
       \<and> filter (readAll_at i) (trace (snd (snd (snd (Batch_step d i c r st))))) =
           filter (readAll_at i) (trace st) @
           map (\<lambda>k. CallReadAll i (foldl (\<lambda>m r. fst (g m r)) (Init c) (take k (rows_data rows)))
                      (rows_data rows ! k)) [0..<length (rows_data rows)]"
proof -
  have cb': "callback_error None (Some g) (Init c) rows = None" using cb one all by simp
  have rr: "read_rows i (ReadOne c) (ReadAll c) (Init c) rows r
              (query_state i (Query c) (ArgsFunc c) (Args c) r w' st) =
     (r[i := foldl (\<lambda>m r. fst (g m r)) (Init c) (rows_data rows)], None, True,
      (query_state i (Query c) (ArgsFunc c) (Args c) r w' st)
        \<lparr>trace := trace (query_state i (Query c) (ArgsFunc c) (Args c) r w' st) @
           map (\<lambda>k. CallReadAll i (foldl (\<lambda>m r. fst (g m r)) (Init c) (take k (rows_data rows)))
                      (rows_data rows ! k)) [0..<length (rows_data rows)]\<rparr>)"
    using read_rows_all[OF cb'] one all by simp
  have f: "\<And>h xs. filter (readAll_at i) (map (\<lambda>k. CallReadAll i (h k) (rows_data rows ! k)) xs)
      = map (\<lambda>k. CallReadAll i (h k) (rows_data rows ! k)) xs"
    by (simp add: filter_map comp_def)
  have "filter (readAll_at i) (trace (snd (snd (snd (Batch_step d i c r st))))) =
        filter (readAll_at i) (trace (snd (snd (snd (read_rows i (ReadOne c) (ReadAll c) (Init c) rows r
              (query_state i (Query c) (ArgsFunc c) (Args c) r w' st))))))"
    by (rule read_step_filter[OF aff q]) simp
  also have "\<dots> = filter (readAll_at i) (trace (query_state i (Query c) (ArgsFunc c) (Args c) r w' st)) @
           map (\<lambda>k. CallReadAll i (foldl (\<lambda>m r. fst (g m r)) (Init c) (take k (rows_data rows)))
                      (rows_data rows ! k)) [0..<length (rows_data rows)]"
    unfolding rr using f by simp
  finally show ?thesis using read_step_facts(1)[OF aff q rr] by (simp add: query_state_filter)
qed

lemma read_step_one:
  assumes aff: "Affect c = 0"
    and q: "tx_Query d (Query c) (resolved (ArgsFunc c) (Args c) r) (world st) = (Inr rows, w')"
    and one: "ReadOne c = Some f"
  shows "filter (readOne_at i) (trace (snd (snd (snd (Batch_step d i c r st))))) =
           filter (readOne_at i) (trace st) @ map (CallReadOne i) (take 1 (rows_data rows))
       \<and> filter (readAll_at i) (trace (snd (snd (snd (Batch_step d i c r st))))) =
           filter (readAll_at i) (trace st)
       \<and> (rows_data rows = [] \<longrightarrow> fst (Batch_step d i c r st) = r)"
proof -
  let ?q = "query_state i (Query c) (ArgsFunc c) (Args c) r w' st"
  obtain r' e ex st2 where rr: "read_rows i (ReadOne c) (ReadAll c) (Init c) rows r ?q = (r', e, ex, st2)"
    by (cases "read_rows i (ReadOne c) (ReadAll c) (Init c) rows r ?q") auto
  have a: "filter (readOne_at i) (trace (snd (snd (snd (Batch_step d i c r st))))) =
        filter (readOne_at i) (trace (snd (snd (snd (read_rows i (ReadOne c) (ReadAll c) (Init c) rows r ?q)))))"
    by (rule read_step_filter[OF aff q]) simp
  have b: "filter (readAll_at i) (trace (snd (snd (snd (Batch_step d i c r st))))) =
        filter (readAll_at i) (trace (snd (snd (snd (read_rows i (ReadOne c) (ReadAll c) (Init c) rows r ?q)))))"
    by (rule read_step_filter[OF aff q]) simp
  have c: "rows_data rows = [] \<longrightarrow> fst (Batch_step d i c r st) = r"
    using read_step_facts(1)[OF aff q rr] read_rows_one(3)[of rows i f "ReadAll c" "Init c" r ?q] rr one
    by simp
  show ?thesis using a b c by (simp add: one read_rows_one(1,2) query_state_filter)
qed

lemma step_args_trace:
  assumes af: "ArgsFunc c = Some f"
  shows "take 2 (drop (length (trace st)) (trace (snd (snd (snd (Batch_step d i c r st)))))) =
     [CallArgsFunc i r,
      if Affect c \<noteq> 0 then CallExec i (Query c) (f r) else CallQuery i (Query c) (f r)]"
proof (cases "Affect c \<noteq> 0")
  case True
  then show ?thesis using af
    by (auto simp: Batch_step_def resolve_args_def write_check_def Let_def split: prod.splits sum.splits)
next
  case False
  obtain res w' where q: "tx_Query d (Query c) (f r) (world st) = (res, w')"
    by (cases "tx_Query d (Query c) (f r) (world st)")
  let ?st1 = "emit (CallQuery i (Query c) (f r)) (emit (CallArgsFunc i r) st\<lparr>world := w'\<rparr>)"
  show ?thesis
  proof (cases res)
    case (Inl err)
    then show ?thesis using False af q
      by (simp add: Batch_step_def resolve_args_def read_command_def)
  next
    case (Inr rows)
    have rs: "resolved (ArgsFunc c) (Args c) r = f r" using af by (simp add: resolved_def)
    have q': "tx_Query d (Query c) (resolved (ArgsFunc c) (Args c) r) (world st) = (Inr rows, w')"
      using q Inr rs by simp
    have qs: "query_state i (Query c) (ArgsFunc c) (Args c) r w' st = ?st1"
      using af rs by (simp add: query_state_def resolve_args_def)
    obtain r' e ex st2 where rr: "read_rows i (ReadOne c) (ReadAll c) (Init c) rows r
               (query_state i (Query c) (ArgsFunc c) (Args c) r w' st) = (r', e, ex, st2)"
      by (cases "read_rows i (ReadOne c) (ReadAll c) (Init c) rows r
               (query_state i (Query c) (ArgsFunc c) (Args c) r w' st)") auto
    from read_rows_extends[of i ?st1 "ReadOne c" "ReadAll c" "Init c" rows r] rr qs obtain es where
      es: "trace st2 = trace ?st1 @ es" by (auto simp: grows_def)
    have "False = (Affect c \<noteq> 0)" using False by simp
    then have aff: "Affect c = 0" by simp
    from read_step_facts(3)[OF aff q' rr] es show ?thesis using aff by auto
  qed
qed

section \<open>Facts about the earlier results-returning executor\<close>











section \<open>Facts about the transaction-owning executor\<close>

lemma step_h_extends: "extends i st (snd (Batch_step_h d i c st))"
proof -
  obtain args w0 where ra:
    "(case ArgsFunc_h c of None \<Rightarrow> (Args_h c, world st) | Some f \<Rightarrow> f (world st)) = (args, w0)"
    by (cases "case ArgsFunc_h c of None \<Rightarrow> (Args_h c, world st) | Some f \<Rightarrow> f (world st)")
  let ?st0 = "st\<lparr>world := w0\<rparr>"
  have e0: "extends i st ?st0" by simp
  show ?thesis
  proof (cases "Affect_h c \<noteq> 0")
    case True
    have "extends i st (snd (write_check d i (Query_h c) (Affect_h c) args ?st0))"
      using e0 write_check_extends[of i ?st0 d "Query_h c" "Affect_h c" args]
      by (rule grows_trans)
    then show ?thesis using True ra by (simp add: Batch_step_h_def)
  next
    case False
    obtain res w' where q: "tx_Query d (Query_h c) args w0 = (res, w')"
      by (cases "tx_Query d (Query_h c) args w0")
    let ?st1 = "emit (CallQuery i (Query_h c) args) (st\<lparr>world := w'\<rparr>)"
    have e1: "extends i st ?st1" by (simp add: extends_emit)
    show ?thesis
    proof (cases res)
      case (Inl err)
      then show ?thesis using False ra q e1 by (simp add: Batch_step_h_def)
    next
      case (Inr rows)
      obtain e ex w2 where sr: "scan_rows_h c rows w' = (e, ex, w2)"
        by (cases "scan_rows_h c rows w'") auto
      have e2: "extends i st (?st1\<lparr>world := w2\<rparr>)" using e1 by simp
      then have e3: "extends i st (emit (CallClose i) (?st1\<lparr>world := w2\<rparr>))"
        by (simp add: extends_emit)
      show ?thesis using False ra q Inr sr e2 e3
        by (cases e; cases "rows_Err rows ex") (simp_all add: Batch_step_h_def Let_def)
    qed
  qed
qed

lemma loop_h_grows:
  "grows (\<lambda>j. i \<le> j \<and> j < i + length cs) st (snd (Batch_loop_h d i cs st))"
proof (induction cs arbitrary: i st)
  case Nil
  show ?case by simp
next
  case (Cons c cs)
  obtain e st' where s: "Batch_step_h d i c st = (e, st')"
    by (cases "Batch_step_h d i c st")
  have g1: "grows (\<lambda>j. i \<le> j \<and> j < i + length (c # cs)) st st'"
    using step_h_extends[of i st d c] s by (auto intro: grows_mono)
  show ?case
  proof (cases e)
    case None
    have "grows (\<lambda>j. i \<le> j \<and> j < i + length (c # cs)) st' (snd (Batch_loop_h d (Suc i) cs st'))"
      using Cons.IH[of "Suc i" st'] by (auto intro: grows_mono)
    then show ?thesis using s None g1 by (auto intro: grows_trans)
  next
    case (Some err)
    then show ?thesis using s g1 by simp
  qed
qed

lemma Batch_h_outcome:
  assumes b: "db_Begin d (world st) = (None, w0)"
    and l: "Batch_loop_h d 0 cs (st\<lparr>world := w0, status := TxOpen\<rparr>) = (e, st1)"
  shows "status st1 = TxOpen"
    and "filter is_finish (drop (length (trace st)) (trace st1)) = []"
    and "\<exists>es. trace st1 = trace st @ es"
    and "e = None \<Longrightarrow> \<exists>w2. Batch_h d cs st =
           (None, st1\<lparr>world := w2, status := TxCommitted, trace := trace st1 @ [TxCommit]\<rparr>)"
    and "e \<noteq> None \<Longrightarrow> \<exists>w2. Batch_h d cs st =
           (e, st1\<lparr>world := w2, status := TxRolledBack, trace := trace st1 @ [TxRollback]\<rparr>)"
proof -
  let ?st0 = "st\<lparr>world := w0, status := TxOpen\<rparr>"
  have g: "grows (\<lambda>j. 0 \<le> j \<and> j < 0 + length cs) ?st0 st1"
    using loop_h_grows[of 0 cs ?st0 d] l by simp
  show s1: "status st1 = TxOpen" using g by (simp add: grows_def)
  show "filter is_finish (drop (length (trace st)) (trace st1)) = []"
    using grows_no_finish[OF g] by simp
  show "\<exists>es. trace st1 = trace st @ es" using g by (auto simp: grows_def)
  show "e = None \<Longrightarrow> \<exists>w2. Batch_h d cs st =
           (None, st1\<lparr>world := w2, status := TxCommitted, trace := trace st1 @ [TxCommit]\<rparr>)"
    using b l s1
    by (auto simp: Batch_h_def tx_Commit_def tx_Rollback_def emit_def split: prod.splits)
  show "e \<noteq> None \<Longrightarrow> \<exists>w2. Batch_h d cs st =
           (e, st1\<lparr>world := w2, status := TxRolledBack, trace := trace st1 @ [TxRollback]\<rparr>)"
    using b l s1
    by (auto simp: Batch_h_def tx_Commit_def tx_Rollback_def emit_def split: prod.splits)
qed

section \<open>When a slot is populated, and when a cursor is released\<close>


text \<open>
  The executor with the deferred \<^verbatim>\<open>rows.Close()\<close> closes the cursor of every read command:
  before the next command starts when the command completes, and at the latest when the
  function returns.
\<close>

lemma Batch_releases_cursor:
  assumes pre: "Batch_loop d 0 pre (replicate (length (pre @ c # post)) VNil) [] st = (r, None, df, st1)"
    and aff: "Affect c = 0"
    and q: "tx_Query d (Query c) (resolved (ArgsFunc c) (Args c) r) (world st1) = (Inr rows, w')"
    and step: "Batch_step d (length pre) c r st1 = (r2, e2, op, st2)"
  shows "CallClose (length pre) \<in> set (trace (snd (snd (Batch d (pre @ c # post) st))))"
    and "e2 = None \<Longrightarrow> last (trace st2) = CallClose (length pre)"
proof -
  let ?i = "length pre"
  obtain r' e ex st' where rr: "read_rows ?i (ReadOne c) (ReadAll c) (Init c) rows r
               (query_state ?i (Query c) (ArgsFunc c) (Args c) r w' st1) = (r', e, ex, st')"
    by (cases "read_rows ?i (ReadOne c) (ReadAll c) (Init c) rows r
               (query_state ?i (Query c) (ArgsFunc c) (Args c) r w' st1)") auto
  note B = read_step_shape[OF aff q rr]
  have op: "op = [?i]" using step unfolding B by (auto split: option.splits)
  show l: "e2 = None \<Longrightarrow> last (trace st2) = CallClose ?i"
    using step unfolding B by (auto split: option.splits)
  show "CallClose ?i \<in> set (trace (snd (snd (Batch d (pre @ c # post) st))))"
  proof (cases e2)
    case (Some err)
    then show ?thesis using Batch_at[OF pre step] op by (simp add: run_defers_trace)
  next
    case None
    obtain r3 e3 df3 st3 where
      lp: "Batch_loop d (Suc ?i) post r2 (op @ df) st2 = (r3, e3, df3, st3)"
      by (cases "Batch_loop d (Suc ?i) post r2 (op @ df) st2") auto
    from loop_grows[of "Suc ?i" post st2 d r2 "op @ df"] lp obtain es where
      t3: "trace st3 = trace st2 @ es" by (auto simp: grows_def)
    have "trace st2 \<noteq> []" using step None unfolding B by (auto split: option.splits)
    then have "CallClose ?i \<in> set (trace st2)" using l[OF None] by (metis last_in_set)
    then show ?thesis using Batch_at[OF pre step] None lp t3 by (simp add: run_defers_trace)
  qed
qed

text \<open>
  The kinds of error that end the body of the loop, besides the row-count mismatch
  (\<open>write_step_err\<close>) and the error of a read callback (\<open>read_step_failed\<close>): a statement
  that the transaction rejects, a result without a row count, a fault of the cursor after
  the read-all loop, and a failure to close the cursor.
\<close>

lemma step_error_kinds:
  shows "Affect c \<noteq> 0 \<Longrightarrow>
         tx_Exec d (Query c) (resolved (ArgsFunc c) (Args c) r) (world st) = (Inl e, w') \<Longrightarrow>
         fst (snd (Batch_step d i c r st)) = Some e"
    and "Affect c \<noteq> 0 \<Longrightarrow>
         tx_Exec d (Query c) (resolved (ArgsFunc c) (Args c) r) (world st) = (Inr (Inl e), w') \<Longrightarrow>
         fst (snd (Batch_step d i c r st)) = Some e"
    and "Affect c = 0 \<Longrightarrow>
         tx_Query d (Query c) (resolved (ArgsFunc c) (Args c) r) (world st) = (Inl e, w') \<Longrightarrow>
         fst (snd (Batch_step d i c r st)) = Some e"
    and "Affect c = 0 \<Longrightarrow>
         tx_Query d (Query c) (resolved (ArgsFunc c) (Args c) r) (world st) = (Inr rows, w') \<Longrightarrow>
         ReadOne c = None \<Longrightarrow> ReadAll c = Some g \<Longrightarrow>
         callback_error (ReadOne c) (ReadAll c) (Init c) rows = None \<Longrightarrow>
         rows_fault rows = Some e \<Longrightarrow>
         fst (snd (Batch_step d i c r st)) = Some e"
    and "Affect c = 0 \<Longrightarrow>
         tx_Query d (Query c) (resolved (ArgsFunc c) (Args c) r) (world st) = (Inr rows, w') \<Longrightarrow>
         callback_error (ReadOne c) (ReadAll c) (Init c) rows = None \<Longrightarrow>
         rows_fault rows = None \<Longrightarrow> rows_close rows = Some e \<Longrightarrow>
         fst (snd (Batch_step d i c r st)) = Some e"
proof -
  let ?a = "resolved (ArgsFunc c) (Args c) r"
  obtain st0 where ra: "resolve_args i (ArgsFunc c) (Args c) r st = (?a, st0)"
    and w0: "world st0 = world st" by (rule resolve_args_split)
  show "Affect c \<noteq> 0 \<Longrightarrow> tx_Exec d (Query c) ?a (world st) = (Inl e, w') \<Longrightarrow>
         fst (snd (Batch_step d i c r st)) = Some e"
    using ra w0 by (simp add: Batch_step_def write_check_def)
  show "Affect c \<noteq> 0 \<Longrightarrow> tx_Exec d (Query c) ?a (world st) = (Inr (Inl e), w') \<Longrightarrow>
         fst (snd (Batch_step d i c r st)) = Some e"
    using ra w0 by (simp add: Batch_step_def write_check_def)
  show "Affect c = 0 \<Longrightarrow> tx_Query d (Query c) ?a (world st) = (Inl e, w') \<Longrightarrow>
         fst (snd (Batch_step d i c r st)) = Some e"
    using ra w0 by (simp add: Batch_step_def read_command_def)
  show "fst (snd (Batch_step d i c r st)) = Some e"
    if aff: "Affect c = 0" and q: "tx_Query d (Query c) ?a (world st) = (Inr rows, w')"
      and one: "ReadOne c = None" and all: "ReadAll c = Some g"
      and cb: "callback_error (ReadOne c) (ReadAll c) (Init c) rows = None"
      and f: "rows_fault rows = Some e"
  proof -
    have cb': "callback_error None (Some g) (Init c) rows = None" using cb one all by simp
    have rr: "read_rows i (ReadOne c) (ReadAll c) (Init c) rows r
              (query_state i (Query c) (ArgsFunc c) (Args c) r w' st) =
     (r[i := foldl (\<lambda>m r. fst (g m r)) (Init c) (rows_data rows)], None, True,
      (query_state i (Query c) (ArgsFunc c) (Args c) r w' st)
        \<lparr>trace := trace (query_state i (Query c) (ArgsFunc c) (Args c) r w' st) @
           map (\<lambda>k. CallReadAll i (foldl (\<lambda>m r. fst (g m r)) (Init c) (take k (rows_data rows)))
                      (rows_data rows ! k)) [0..<length (rows_data rows)]\<rparr>)"
      using read_rows_all[OF cb'] one all by simp
    show ?thesis unfolding read_step_shape[OF aff q rr] using f by (simp add: rows_Err_def)
  qed
  show "fst (snd (Batch_step d i c r st)) = Some e"
    if aff: "Affect c = 0" and q: "tx_Query d (Query c) ?a (world st) = (Inr rows, w')"
      and cb: "callback_error (ReadOne c) (ReadAll c) (Init c) rows = None"
      and f: "rows_fault rows = None" and cl: "rows_close rows = Some e"
  proof -
    obtain r' e' ex st2 where rr: "read_rows i (ReadOne c) (ReadAll c) (Init c) rows r
               (query_state i (Query c) (ArgsFunc c) (Args c) r w' st) = (r', e', ex, st2)"
      by (cases "read_rows i (ReadOne c) (ReadAll c) (Init c) rows r
               (query_state i (Query c) (ArgsFunc c) (Args c) r w' st)") auto
    have "e' = None"
      using read_rows_error[of i "ReadOne c" "ReadAll c" "Init c" rows r] rr cb
      by (metis fst_conv snd_conv)
    then show ?thesis unfolding read_step_shape[OF aff q rr] using f cl by (simp add: rows_Err_def)
  qed
qed

section \<open>The claims\<close>

lemmas run_batch =
  Batch_def Batch_step_def resolve_args_def resolved_def write_check_def read_command_def
  read_rows_def rows_Err_def expected_rows_def callback_error_def emit_def Let_def
  counting_db_def empty_db_def two_rows_def open_tx_def first_col_def collect_def
  read_one_cmd_def read_all_cmd_def bad_decode_cmd_def update_cmd_def lonely_update_cmd_def

text \<open>
  C4.  A command with non-zero \<open>Affect\<close> expects \<open>max(Affect, 0)\<close> affected rows.  When the
  driver reports a count, the command succeeds exactly when the count equals the
  expectation; otherwise \<open>Batch\<close> returns the row-count error that carries the expected
  count, the reported count and the query text.  The result slot of the command is unset
  in the results that \<open>Batch\<close> returns.  The command is at an arbitrary position of the
  batch, after commands that completed without error.
\<close>

theorem C4_affect_check:
  assumes aff: "Affect c \<noteq> 0"
    and pre: "Batch_loop d 0 pre (replicate (length (pre @ c # post)) VNil) [] st = (r, None, df, st1)"
    and ex: "tx_Exec d (Query c) (resolved (ArgsFunc c) (Args c) r) (world st1)
               = (Inr (Inr affected), w')"
  shows "sint (expected_rows (Affect c)) = max (sint (Affect c)) 0
       \<and> ((fst (snd (Batch_step d (length pre) c r st1)) = None) = (affected = expected_rows (Affect c)))
       \<and> (affected \<noteq> expected_rows (Affect c) \<longrightarrow>
            fst (snd (Batch d (pre @ c # post) st)) =
              Some (ExpectedDifferentAffectedRows (expected_rows (Affect c)) affected (Query c)))
       \<and> fst (Batch d (pre @ c # post) st) ! length pre = VNil"
proof -
  obtain r2 e2 op st2 where step: "Batch_step d (length pre) c r st1 = (r2, e2, op, st2)"
    by (cases "Batch_step d (length pre) c r st1") auto
  have r2: "r2 = r" using write_step[OF aff, of d "length pre" r st1] step by simp
  have e2: "e2 = (if expected_rows (Affect c) \<noteq> affected
            then Some (ExpectedDifferentAffectedRows (expected_rows (Affect c)) affected (Query c))
            else None)"
    using write_step_err[OF aff ex, of "length pre"] step by simp
  have nil: "r ! length pre = VNil"
    using prefix_nil(2)[OF pre, of "length pre"] by simp
  have slot: "fst (Batch d (pre @ c # post) st) ! length pre = VNil"
    using Batch_slot[OF pre step] r2 nil by simp
  have iff: "(fst (snd (Batch_step d (length pre) c r st1)) = None) = (affected = expected_rows (Affect c))"
    using step e2 by auto
  have mis: "affected \<noteq> expected_rows (Affect c) \<longrightarrow>
            fst (snd (Batch d (pre @ c # post) st)) =
              Some (ExpectedDifferentAffectedRows (expected_rows (Affect c)) affected (Query c))"
    using Batch_at[OF pre step] e2 by auto
  show ?thesis using expected_rows_max iff mis slot by blast
qed

theorem C4_affect_check_witness:
  "Affect lonely_update_cmd \<noteq> 0
   \<and> Batch_loop counting_db 0 [read_one_cmd]
       (replicate (length ([read_one_cmd] @ lonely_update_cmd # [read_all_cmd])) VNil) [] open_tx
     = ([VInt 10, VNil, VNil], None, [0],
        \<lparr>world = 1, status = TxOpen,
         trace = [CallQuery 0 ''SELECT id FROM t'' [], CallReadOne 0 [VInt 10], CallClose 0]\<rparr>)
   \<and> tx_Exec counting_db (Query lonely_update_cmd)
       (resolved (ArgsFunc lonely_update_cmd) (Args lonely_update_cmd) [VInt 10, VNil, VNil]) 1
     = (Inr (Inr 0), 2)
   \<and> (0::int64) \<noteq> expected_rows (Affect lonely_update_cmd)
   \<and> fst (snd (Batch counting_db ([read_one_cmd] @ lonely_update_cmd # [read_all_cmd]) open_tx))
     = Some (ExpectedDifferentAffectedRows 1 0 ''UPDATE t SET seen = 1'')
   \<and> fst (Batch counting_db ([read_one_cmd] @ lonely_update_cmd # [read_all_cmd]) open_tx) ! 1 = VNil"
proof -
  let ?st1 = "\<lparr>world = 1::nat, status = TxOpen,
         trace = [CallQuery 0 ''SELECT id FROM t'' [], CallReadOne 0 [VInt 10], CallClose 0]\<rparr>"
  have h1: "Affect lonely_update_cmd \<noteq> 0" by (simp add: lonely_update_cmd_def)
  have h2: "Batch_loop counting_db 0 [read_one_cmd]
       (replicate (length ([read_one_cmd] @ lonely_update_cmd # [read_all_cmd])) VNil) [] open_tx
     = ([VInt 10, VNil, VNil], None, [0], ?st1)"
    by (simp add: run_batch)
  have h3: "tx_Exec counting_db (Query lonely_update_cmd)
       (resolved (ArgsFunc lonely_update_cmd) (Args lonely_update_cmd) [VInt 10, VNil, VNil]) (world ?st1)
     = (Inr (Inr 0), 2)"
    by (simp add: run_batch)
  have h4: "(0::int64) \<noteq> expected_rows (Affect lonely_update_cmd)"
    by (simp add: lonely_update_cmd_def expected_rows_def)
  from C4_affect_check[OF h1 h2 h3] h4
  have "fst (snd (Batch counting_db ([read_one_cmd] @ lonely_update_cmd # [read_all_cmd]) open_tx))
     = Some (ExpectedDifferentAffectedRows (expected_rows (Affect lonely_update_cmd)) 0
              (Query lonely_update_cmd))
    \<and> fst (Batch counting_db ([read_one_cmd] @ lonely_update_cmd # [read_all_cmd]) open_tx)
         ! length [read_one_cmd] = VNil"
    by blast
  then show ?thesis using h1 h2 h3 h4 by (simp add: lonely_update_cmd_def expected_rows_def)
qed

text \<open>
  C5.  If processing the command at index \<open>i\<close> ends in an error (whatever its kind:
  the body of the loop returns it; \<open>write_step_err\<close>, \<open>read_step_failed\<close> and
  \<open>step_error_kinds\<close> show that each kind does end it), \<open>Batch\<close> returns the results as that command left
  them together with that error, the database is in the state in which that command left
  it, and every call that \<open>Batch\<close> has made belongs to a command of index at most \<open>i\<close>:
  no later command is executed.
\<close>

theorem C5_error_aborts_batch:
  assumes t0: "trace st = []"
    and pre: "Batch_loop d 0 pre (replicate (length (pre @ c # post)) VNil) [] st = (r, None, df, st1)"
    and step: "Batch_step d (length pre) c r st1 = (r', Some err, op, st')"
  shows "fst (Batch d (pre @ c # post) st) = r'
       \<and> fst (snd (Batch d (pre @ c # post) st)) = Some err
       \<and> world (snd (snd (Batch d (pre @ c # post) st))) = world st'
       \<and> (\<forall>ev\<in>set (trace (snd (snd (Batch d (pre @ c # post) st)))).
            \<exists>j. ev_index ev = Some j \<and> j \<le> length pre)"
proof -
  have B: "Batch d (pre @ c # post) st = (r', Some err, run_defers (op @ df) st')"
    using Batch_at[OF pre step] by simp
  from loop_grows[of 0 pre st d "replicate (length (pre @ c # post)) VNil" "[]"] pre t0
  obtain es1 where t1: "trace st1 = es1"
    and i1: "\<forall>ev\<in>set es1. \<exists>j. ev_index ev = Some j \<and> j < length pre"
    by (auto simp: grows_def)
  from step_extends[of "length pre" st1 d c r] step
  obtain es2 where t2: "trace st' = trace st1 @ es2"
    and i2: "\<forall>ev\<in>set es2. ev_index ev = Some (length pre)"
    by (auto simp: grows_def)
  have d1: "set df \<subseteq> {0..<length pre}"
    using loop_defers[of d 0 pre "replicate (length (pre @ c # post)) VNil" "[]" st] pre by simp
  have d2: "set op \<subseteq> {length pre}" using step_opened[of d "length pre" c r st1] step by simp
  have tr: "trace (run_defers (op @ df) st') = es1 @ es2 @ map CallClose (op @ df)"
    using t1 t2 by (simp add: run_defers_trace)
  have "\<forall>ev\<in>set (es1 @ es2 @ map CallClose (op @ df)). \<exists>j. ev_index ev = Some j \<and> j \<le> length pre"
    using i1 i2 d1 d2 by (fastforce simp: subset_iff)
  then show ?thesis using B tr by simp
qed

theorem C5_error_aborts_batch_witness:
  "trace open_tx = []
   \<and> Batch_loop counting_db 0 [read_one_cmd]
       (replicate (length ([read_one_cmd] @ bad_decode_cmd # [read_all_cmd])) VNil) [] open_tx
     = ([VInt 10, VNil, VNil], None, [0],
        \<lparr>world = 1, status = TxOpen,
         trace = [CallQuery 0 ''SELECT id FROM t'' [], CallReadOne 0 [VInt 10], CallClose 0]\<rparr>)
   \<and> Batch_step counting_db (length [read_one_cmd]) bad_decode_cmd [VInt 10, VNil, VNil]
        \<lparr>world = 1, status = TxOpen,
         trace = [CallQuery 0 ''SELECT id FROM t'' [], CallReadOne 0 [VInt 10], CallClose 0]\<rparr>
     = ([VInt 10, VNil, VNil], Some (Err ''decode''), [1],
        \<lparr>world = 2, status = TxOpen,
         trace = [CallQuery 0 ''SELECT id FROM t'' [], CallReadOne 0 [VInt 10], CallClose 0,
                  CallQuery 1 ''SELECT id FROM t'' [], CallReadOne 1 [VInt 10]]\<rparr>)
   \<and> fst (Batch counting_db ([read_one_cmd] @ bad_decode_cmd # [read_all_cmd]) open_tx)
       = [VInt 10, VNil, VNil]
   \<and> fst (snd (Batch counting_db ([read_one_cmd] @ bad_decode_cmd # [read_all_cmd]) open_tx))
       = Some (Err ''decode'')
   \<and> world (snd (snd (Batch counting_db ([read_one_cmd] @ bad_decode_cmd # [read_all_cmd]) open_tx))) = 2
   \<and> list_all (\<lambda>ev. ev_index ev = Some 0 \<or> ev_index ev = Some 1)
        (trace (snd (snd
          (Batch counting_db ([read_one_cmd] @ bad_decode_cmd # [read_all_cmd]) open_tx))))"
proof -
  let ?st1 = "\<lparr>world = 1::nat, status = TxOpen,
         trace = [CallQuery 0 ''SELECT id FROM t'' [], CallReadOne 0 [VInt 10], CallClose 0]\<rparr>"
  let ?st2 = "\<lparr>world = 2::nat, status = TxOpen,
         trace = [CallQuery 0 ''SELECT id FROM t'' [], CallReadOne 0 [VInt 10], CallClose 0,
                  CallQuery 1 ''SELECT id FROM t'' [], CallReadOne 1 [VInt 10]]\<rparr>"
  have h1: "trace open_tx = []" by (simp add: open_tx_def)
  have h2: "Batch_loop counting_db 0 [read_one_cmd]
       (replicate (length ([read_one_cmd] @ bad_decode_cmd # [read_all_cmd])) VNil) [] open_tx
     = ([VInt 10, VNil, VNil], None, [0], ?st1)"
    by (simp add: run_batch)
  have h3: "Batch_step counting_db (length [read_one_cmd]) bad_decode_cmd [VInt 10, VNil, VNil] ?st1
     = ([VInt 10, VNil, VNil], Some (Err ''decode''), [1], ?st2)"
    by (simp add: run_batch)
  from C5_error_aborts_batch[OF h1 h2 h3] show ?thesis
    by (simp add: run_batch)
qed

text \<open>
  C6.  For a read command with \<open>ReadAll\<close> set and \<open>ReadOne\<close> unset whose statement returns
  a cursor, and whose callback returns no error on the way: the calls of \<open>ReadAll\<close> for the
  command are exactly one per row, in cursor order, each with the memo folded so far; the
  value in the result slot of the command, in the results that \<open>Batch\<close> returns, is the
  left fold of \<open>ReadAll\<close> over the rows from \<open>Init\<close>; with no rows it is \<open>Init\<close>.
\<close>

theorem C6_readAll_fold:
  assumes t0: "trace st = []"
    and pre: "Batch_loop d 0 pre (replicate (length (pre @ c # post)) VNil) [] st = (r, None, df, st1)"
    and aff: "Affect c = 0"
    and one: "ReadOne c = None" and all: "ReadAll c = Some g"
    and q: "tx_Query d (Query c) (resolved (ArgsFunc c) (Args c) r) (world st1) = (Inr rows, w')"
    and cb: "callback_error (ReadOne c) (ReadAll c) (Init c) rows = None"
  shows "filter (readAll_at (length pre)) (trace (snd (snd (Batch d (pre @ c # post) st)))) =
           map (\<lambda>k. CallReadAll (length pre)
                      (foldl (\<lambda>m r. fst (g m r)) (Init c) (take k (rows_data rows)))
                      (rows_data rows ! k)) [0..<length (rows_data rows)]
       \<and> fst (Batch d (pre @ c # post) st) ! length pre =
           foldl (\<lambda>m r. fst (g m r)) (Init c) (rows_data rows)
       \<and> (rows_data rows = [] \<longrightarrow> fst (Batch d (pre @ c # post) st) ! length pre = Init c)"
proof -
  obtain r2 e2 op st2 where step: "Batch_step d (length pre) c r st1 = (r2, e2, op, st2)"
    by (cases "Batch_step d (length pre) c r st1") auto
  note s = read_step_all[OF aff q one all cb, of "length pre"]
  have len: "length pre < length r" using prefix_nil(1)[OF pre] by simp
  have slot: "fst (Batch d (pre @ c # post) st) ! length pre =
           foldl (\<lambda>m r. fst (g m r)) (Init c) (rows_data rows)"
    using Batch_slot[OF pre step] s step len by simp
  have tr: "filter (readAll_at (length pre)) (trace (snd (snd (Batch d (pre @ c # post) st)))) =
           filter (readAll_at (length pre)) (trace st2)"
    by (rule Batch_filter(1)[OF t0 pre step]) (rule readAll_at_index)
  have tr1: "filter (readAll_at (length pre)) (trace st1) = []"
    by (rule Batch_filter(2)[OF t0 pre step]) (rule readAll_at_index)
  show ?thesis using slot tr tr1 s step by simp
qed

theorem C6_readAll_fold_witness:
  "trace open_tx = []
   \<and> Batch_loop counting_db 0 [read_one_cmd]
       (replicate (length ([read_one_cmd] @ read_all_cmd # [update_cmd])) VNil) [] open_tx
     = ([VInt 10, VNil, VNil], None, [0],
        \<lparr>world = 1, status = TxOpen,
         trace = [CallQuery 0 ''SELECT id FROM t'' [], CallReadOne 0 [VInt 10], CallClose 0]\<rparr>)
   \<and> Affect read_all_cmd = 0 \<and> ReadOne read_all_cmd = None \<and> ReadAll read_all_cmd = Some collect
   \<and> tx_Query counting_db (Query read_all_cmd)
        (resolved (ArgsFunc read_all_cmd) (Args read_all_cmd) [VInt 10, VNil, VNil]) 1
      = (Inr two_rows, 2)
   \<and> callback_error (ReadOne read_all_cmd) (ReadAll read_all_cmd) (Init read_all_cmd) two_rows = None
   \<and> filter (readAll_at 1)
        (trace (snd (snd (Batch counting_db ([read_one_cmd] @ read_all_cmd # [update_cmd]) open_tx))))
      = [CallReadAll 1 (VList []) [VInt 10], CallReadAll 1 (VList [VInt 10]) [VInt 20]]
   \<and> fst (Batch counting_db ([read_one_cmd] @ read_all_cmd # [update_cmd]) open_tx) ! 1
      = VList [VInt 10, VInt 20]
   \<and> tx_Query empty_db (Query read_all_cmd)
        (resolved (ArgsFunc read_all_cmd) (Args read_all_cmd) [VNil]) 0
      = (Inr \<lparr>rows_data = [], rows_fault = None, rows_close = None\<rparr>, 1)
   \<and> fst (Batch empty_db ([] @ read_all_cmd # []) open_tx) ! 0 = VList []"
proof -
  let ?st1 = "\<lparr>world = 1::nat, status = TxOpen,
         trace = [CallQuery 0 ''SELECT id FROM t'' [], CallReadOne 0 [VInt 10], CallClose 0]\<rparr>"
  let ?none = "\<lparr>rows_data = [], rows_fault = None, rows_close = None\<rparr>"
  have h1: "trace open_tx = []" by (simp add: open_tx_def)
  have h2: "Batch_loop counting_db 0 [read_one_cmd]
       (replicate (length ([read_one_cmd] @ read_all_cmd # [update_cmd])) VNil) [] open_tx
     = ([VInt 10, VNil, VNil], None, [0], ?st1)"
    by (simp add: run_batch)
  have h3: "Affect read_all_cmd = 0" by (simp add: read_all_cmd_def)
  have h4: "ReadOne read_all_cmd = None" by (simp add: read_all_cmd_def)
  have h5: "ReadAll read_all_cmd = Some collect" by (simp add: read_all_cmd_def)
  have h6: "tx_Query counting_db (Query read_all_cmd)
        (resolved (ArgsFunc read_all_cmd) (Args read_all_cmd) [VInt 10, VNil, VNil]) (world ?st1)
      = (Inr two_rows, 2)"
    by (simp add: counting_db_def)
  have h7: "callback_error (ReadOne read_all_cmd) (ReadAll read_all_cmd) (Init read_all_cmd) two_rows = None"
    by (simp add: run_batch)
  have g2: "Batch_loop empty_db 0 [] (replicate (length ([] @ read_all_cmd # [])) VNil) [] open_tx
     = ([VNil], None, [], open_tx)"
    by simp
  have g6: "tx_Query empty_db (Query read_all_cmd)
        (resolved (ArgsFunc read_all_cmd) (Args read_all_cmd) [VNil]) (world open_tx)
      = (Inr ?none, 1)"
    by (simp add: empty_db_def counting_db_def open_tx_def)
  have g7: "callback_error (ReadOne read_all_cmd) (ReadAll read_all_cmd) (Init read_all_cmd) ?none = None"
    by (simp add: run_batch)
  have a: "filter (readAll_at 1)
        (trace (snd (snd (Batch counting_db ([read_one_cmd] @ read_all_cmd # [update_cmd]) open_tx))))
      = [CallReadAll 1 (VList []) [VInt 10], CallReadAll 1 (VList [VInt 10]) [VInt 20]]
   \<and> fst (Batch counting_db ([read_one_cmd] @ read_all_cmd # [update_cmd]) open_tx) ! 1
      = VList [VInt 10, VInt 20]"
    using C6_readAll_fold[OF h1 h2 h3 h4 h5 h6 h7]
    by (simp add: two_rows_def read_all_cmd_def collect_def first_col_def upt_conv_Cons)
  have b: "fst (Batch empty_db ([] @ read_all_cmd # []) open_tx) ! 0 = VList []"
    using C6_readAll_fold[OF h1 g2 h3 h4 h5 g6 g7] by (simp add: read_all_cmd_def)
  show ?thesis using h1 h2 h3 h4 h5 h6 h7 g6 a b by (simp add: open_tx_def)
qed

text \<open>
  C7.  For a read command with \<open>ReadOne\<close> set whose statement returns a cursor: the calls of
  \<open>ReadOne\<close> for the command are none when the cursor has no row and otherwise one, on the
  first row; \<open>ReadAll\<close> is never called for the command, whether or not it is set; and when
  the cursor has no row the result slot of the command is unset.
\<close>

theorem C7_readOne_once:
  assumes t0: "trace st = []"
    and pre: "Batch_loop d 0 pre (replicate (length (pre @ c # post)) VNil) [] st = (r, None, df, st1)"
    and aff: "Affect c = 0"
    and one: "ReadOne c = Some f"
    and q: "tx_Query d (Query c) (resolved (ArgsFunc c) (Args c) r) (world st1) = (Inr rows, w')"
  shows "filter (readOne_at (length pre)) (trace (snd (snd (Batch d (pre @ c # post) st)))) =
           map (CallReadOne (length pre)) (take 1 (rows_data rows))
       \<and> filter (readAll_at (length pre)) (trace (snd (snd (Batch d (pre @ c # post) st)))) = []
       \<and> (rows_data rows = [] \<longrightarrow> fst (Batch d (pre @ c # post) st) ! length pre = VNil)"
proof -
  obtain r2 e2 op st2 where step: "Batch_step d (length pre) c r st1 = (r2, e2, op, st2)"
    by (cases "Batch_step d (length pre) c r st1") auto
  note s = read_step_one[OF aff q one, of "length pre"]
  have nil: "r ! length pre = VNil"
    using prefix_nil(2)[OF pre, of "length pre"] by simp
  have slot: "rows_data rows = [] \<longrightarrow> fst (Batch d (pre @ c # post) st) ! length pre = VNil"
    using Batch_slot[OF pre step] s step nil by simp
  have a: "filter (readOne_at (length pre)) (trace (snd (snd (Batch d (pre @ c # post) st)))) =
           filter (readOne_at (length pre)) (trace st2)"
    by (rule Batch_filter(1)[OF t0 pre step]) (rule readOne_at_index)
  have a1: "filter (readOne_at (length pre)) (trace st1) = []"
    by (rule Batch_filter(2)[OF t0 pre step]) (rule readOne_at_index)
  have b: "filter (readAll_at (length pre)) (trace (snd (snd (Batch d (pre @ c # post) st)))) =
           filter (readAll_at (length pre)) (trace st2)"
    by (rule Batch_filter(1)[OF t0 pre step]) (rule readAll_at_index)
  have b1: "filter (readAll_at (length pre)) (trace st1) = []"
    by (rule Batch_filter(2)[OF t0 pre step]) (rule readAll_at_index)
  show ?thesis using slot a a1 b b1 s step by simp
qed

theorem C7_readOne_once_witness:
  "trace open_tx = []
   \<and> Batch_loop counting_db 0 [] (replicate (length ([] @ read_one_cmd # [read_all_cmd])) VNil) [] open_tx
     = ([VNil, VNil], None, [], open_tx)
   \<and> Affect read_one_cmd = 0
   \<and> ReadOne read_one_cmd = Some (\<lambda>r. (first_col r, None))
   \<and> ReadAll read_one_cmd = Some collect
   \<and> tx_Query counting_db (Query read_one_cmd)
        (resolved (ArgsFunc read_one_cmd) (Args read_one_cmd) [VNil, VNil]) 0
      = (Inr two_rows, 1)
   \<and> filter (readOne_at 0)
        (trace (snd (snd (Batch counting_db ([] @ read_one_cmd # [read_all_cmd]) open_tx))))
      = [CallReadOne 0 [VInt 10]]
   \<and> filter (readAll_at 0)
        (trace (snd (snd (Batch counting_db ([] @ read_one_cmd # [read_all_cmd]) open_tx))))
      = []
   \<and> tx_Query empty_db (Query read_one_cmd)
        (resolved (ArgsFunc read_one_cmd) (Args read_one_cmd) [VNil]) 0
      = (Inr \<lparr>rows_data = [], rows_fault = None, rows_close = None\<rparr>, 1)
   \<and> fst (Batch empty_db ([] @ read_one_cmd # []) open_tx) ! 0 = VNil"
proof -
  let ?none = "\<lparr>rows_data = [], rows_fault = None, rows_close = None\<rparr>"
  have h1: "trace open_tx = []" by (simp add: open_tx_def)
  have h2: "Batch_loop counting_db 0 [] (replicate (length ([] @ read_one_cmd # [read_all_cmd])) VNil) [] open_tx
     = ([VNil, VNil], None, [], open_tx)"
    by simp
  have h3: "Affect read_one_cmd = 0" by (simp add: read_one_cmd_def)
  have h4: "ReadOne read_one_cmd = Some (\<lambda>r. (first_col r, None))" by (simp add: read_one_cmd_def)
  have h5: "ReadAll read_one_cmd = Some collect" by (simp add: read_one_cmd_def)
  have h6: "tx_Query counting_db (Query read_one_cmd)
        (resolved (ArgsFunc read_one_cmd) (Args read_one_cmd) [VNil, VNil]) (world open_tx)
      = (Inr two_rows, 1)"
    by (simp add: counting_db_def open_tx_def)
  have g2: "Batch_loop empty_db 0 [] (replicate (length ([] @ read_one_cmd # [])) VNil) [] open_tx
     = ([VNil], None, [], open_tx)"
    by simp
  have g6: "tx_Query empty_db (Query read_one_cmd)
        (resolved (ArgsFunc read_one_cmd) (Args read_one_cmd) [VNil]) (world open_tx)
      = (Inr ?none, 1)"
    by (simp add: empty_db_def counting_db_def open_tx_def)
  have a: "filter (readOne_at 0)
        (trace (snd (snd (Batch counting_db ([] @ read_one_cmd # [read_all_cmd]) open_tx))))
      = [CallReadOne 0 [VInt 10]]
   \<and> filter (readAll_at 0)
        (trace (snd (snd (Batch counting_db ([] @ read_one_cmd # [read_all_cmd]) open_tx))))
      = []"
    using C7_readOne_once[OF h1 h2 h3 h4 h6] by (simp add: two_rows_def)
  have b: "fst (Batch empty_db ([] @ read_one_cmd # []) open_tx) ! 0 = VNil"
    using C7_readOne_once[OF h1 g2 h3 h4 g6] by simp
  show ?thesis using h1 h2 h3 h4 h5 h6 g6 a b by (simp add: open_tx_def)
qed

text \<open>
  C8.  For a command at index \<open>i\<close> with \<open>ArgsFunc\<close> set, after commands that completed
  without error: \<open>ArgsFunc\<close> is called with the results sequence as those commands left it,
  which has one slot per command of the batch and every slot from \<open>i\<close> on unset; the very
  next call is the statement of command \<open>i\<close>, sent with the arguments that \<open>ArgsFunc\<close>
  returned (not with \<open>Args\<close>).
\<close>

theorem C8_argsFunc_sees_prior_results:
  assumes pre: "Batch_loop d 0 pre (replicate (length (pre @ c # post)) VNil) [] st = (r, None, df, st1)"
    and af: "ArgsFunc c = Some f"
  shows "take 2 (drop (length (trace st1)) (trace (snd (snd (Batch d (pre @ c # post) st))))) =
           [CallArgsFunc (length pre) r,
            if Affect c \<noteq> 0 then CallExec (length pre) (Query c) (f r)
            else CallQuery (length pre) (Query c) (f r)]
       \<and> length r = length (pre @ c # post)
       \<and> (\<forall>j. length pre \<le> j \<and> j < length (pre @ c # post) \<longrightarrow> r ! j = VNil)"
proof -
  obtain r2 e2 op st2 where step: "Batch_step d (length pre) c r st1 = (r2, e2, op, st2)"
    by (cases "Batch_step d (length pre) c r st1") auto
  have s: "take 2 (drop (length (trace st1)) (trace st2)) =
           [CallArgsFunc (length pre) r,
            if Affect c \<noteq> 0 then CallExec (length pre) (Query c) (f r)
            else CallQuery (length pre) (Query c) (f r)]"
    using step_args_trace[OF af, of st1 d "length pre" r] step by simp
  from step_extends[of "length pre" st1 d c r] step obtain es2 where
    e2: "trace st2 = trace st1 @ es2" by (auto simp: grows_def)
  have "\<exists>es. trace (snd (snd (Batch d (pre @ c # post) st))) = trace st2 @ es"
  proof (cases e2)
    case (Some err)
    then show ?thesis using Batch_at[OF pre step] by (simp add: run_defers_trace)
  next
    case None
    obtain r3 e3 df3 st3 where
      l: "Batch_loop d (Suc (length pre)) post r2 (op @ df) st2 = (r3, e3, df3, st3)"
      by (cases "Batch_loop d (Suc (length pre)) post r2 (op @ df) st2") auto
    from loop_grows[of "Suc (length pre)" post st2 d r2 "op @ df"] l obtain es3 where
      "trace st3 = trace st2 @ es3" by (auto simp: grows_def)
    then show ?thesis using Batch_at[OF pre step] None l by (simp add: run_defers_trace)
  qed
  then obtain es where fin: "trace (snd (snd (Batch d (pre @ c # post) st))) = trace st1 @ es2 @ es"
    using e2 by auto
  have s': "take 2 es2 = [CallArgsFunc (length pre) r,
            if Affect c \<noteq> 0 then CallExec (length pre) (Query c) (f r)
            else CallQuery (length pre) (Query c) (f r)]"
    using s e2 by simp
  have "length (take 2 es2) = 2" unfolding s' by simp
  then have "2 \<le> length es2" by simp
  then have "take 2 (es2 @ es) = take 2 es2" by simp
  then have t: "take 2 (drop (length (trace st1)) (trace (snd (snd (Batch d (pre @ c # post) st))))) =
           [CallArgsFunc (length pre) r,
            if Affect c \<noteq> 0 then CallExec (length pre) (Query c) (f r)
            else CallQuery (length pre) (Query c) (f r)]"
    using fin s' by simp
  show ?thesis using t prefix_nil[OF pre] by simp
qed

theorem C8_argsFunc_sees_prior_results_witness:
  "Batch_loop counting_db 0 [read_one_cmd]
       (replicate (length ([read_one_cmd] @ update_cmd # [read_all_cmd])) VNil) [] open_tx
     = ([VInt 10, VNil, VNil], None, [0],
        \<lparr>world = 1, status = TxOpen,
         trace = [CallQuery 0 ''SELECT id FROM t'' [], CallReadOne 0 [VInt 10], CallClose 0]\<rparr>)
   \<and> ArgsFunc update_cmd = Some (take 1) \<and> Args update_cmd = []
   \<and> take 2 (drop 3
        (trace (snd (snd (Batch counting_db ([read_one_cmd] @ update_cmd # [read_all_cmd]) open_tx)))))
      = [CallArgsFunc 1 [VInt 10, VNil, VNil],
         CallExec 1 ''UPDATE t SET seen = 1 WHERE id = $1'' [VInt 10]]
   \<and> length [VInt 10, VNil, VNil] = length ([read_one_cmd] @ update_cmd # [read_all_cmd])
   \<and> [VInt 10, VNil, VNil] ! 1 = VNil \<and> [VInt 10, VNil, VNil] ! 2 = VNil"
proof -
  let ?st1 = "\<lparr>world = 1::nat, status = TxOpen,
         trace = [CallQuery 0 ''SELECT id FROM t'' [], CallReadOne 0 [VInt 10], CallClose 0]\<rparr>"
  have h1: "Batch_loop counting_db 0 [read_one_cmd]
       (replicate (length ([read_one_cmd] @ update_cmd # [read_all_cmd])) VNil) [] open_tx
     = ([VInt 10, VNil, VNil], None, [0], ?st1)"
    by (simp add: run_batch)
  have h2: "ArgsFunc update_cmd = Some (take 1)" by (simp add: update_cmd_def)
  from C8_argsFunc_sees_prior_results[OF h1 h2]
  have "take 2 (drop (length (trace ?st1))
        (trace (snd (snd (Batch counting_db ([read_one_cmd] @ update_cmd # [read_all_cmd]) open_tx)))))
      = [CallArgsFunc (length [read_one_cmd]) [VInt 10, VNil, VNil],
         if Affect update_cmd \<noteq> 0
         then CallExec (length [read_one_cmd]) (Query update_cmd) (take 1 [VInt 10, VNil, VNil])
         else CallQuery (length [read_one_cmd]) (Query update_cmd) (take 1 [VInt 10, VNil, VNil])]"
    by blast
  then show ?thesis using h1 h2 by (simp add: update_cmd_def numeral_3_eq_3)
qed

text \<open>
  C10.  For a read command whose statement returns a cursor and whose \<open>ReadOne\<close> or
  \<open>ReadAll\<close> callback returns an error on some row: \<open>Batch\<close> returns that error and the
  results as they were before the command, so the slot of the command is unset; the value
  that came with the error and the memo accumulated so far are not stored.
\<close>

theorem C10_callback_error_leaves_slot_unset:
  assumes pre: "Batch_loop d 0 pre (replicate (length (pre @ c # post)) VNil) [] st = (r, None, df, st1)"
    and aff: "Affect c = 0"
    and q: "tx_Query d (Query c) (resolved (ArgsFunc c) (Args c) r) (world st1) = (Inr rows, w')"
    and cb: "callback_error (ReadOne c) (ReadAll c) (Init c) rows = Some err"
  shows "fst (Batch d (pre @ c # post) st) ! length pre = VNil
       \<and> fst (Batch d (pre @ c # post) st) = r
       \<and> fst (snd (Batch d (pre @ c # post) st)) = Some err"
proof -
  obtain r2 e2 op st2 where step: "Batch_step d (length pre) c r st1 = (r2, e2, op, st2)"
    by (cases "Batch_step d (length pre) c r st1") auto
  have s: "r2 = r" "e2 = Some err"
    using read_step_failed[OF aff q cb, of "length pre"] step by simp_all
  have nil: "r ! length pre = VNil"
    using prefix_nil(2)[OF pre, of "length pre"] by simp
  show ?thesis using Batch_at[OF pre step] s nil by simp
qed

theorem C10_callback_error_leaves_slot_unset_witness:
  "Batch_loop counting_db 0 [read_one_cmd]
       (replicate (length ([read_one_cmd] @ bad_decode_cmd # [read_all_cmd])) VNil) [] open_tx
     = ([VInt 10, VNil, VNil], None, [0],
        \<lparr>world = 1, status = TxOpen,
         trace = [CallQuery 0 ''SELECT id FROM t'' [], CallReadOne 0 [VInt 10], CallClose 0]\<rparr>)
   \<and> Affect bad_decode_cmd = 0
   \<and> tx_Query counting_db (Query bad_decode_cmd)
        (resolved (ArgsFunc bad_decode_cmd) (Args bad_decode_cmd) [VInt 10, VNil, VNil]) 1
      = (Inr two_rows, 2)
   \<and> callback_error (ReadOne bad_decode_cmd) (ReadAll bad_decode_cmd) (Init bad_decode_cmd) two_rows
      = Some (Err ''decode'')
   \<and> fst (Batch counting_db ([read_one_cmd] @ bad_decode_cmd # [read_all_cmd]) open_tx) ! 1 = VNil
   \<and> fst (Batch counting_db ([read_one_cmd] @ bad_decode_cmd # [read_all_cmd]) open_tx)
      = [VInt 10, VNil, VNil]
   \<and> fst (snd (Batch counting_db ([read_one_cmd] @ bad_decode_cmd # [read_all_cmd]) open_tx))
      = Some (Err ''decode'')"
proof -
  let ?st1 = "\<lparr>world = 1::nat, status = TxOpen,
         trace = [CallQuery 0 ''SELECT id FROM t'' [], CallReadOne 0 [VInt 10], CallClose 0]\<rparr>"
  have h1: "Batch_loop counting_db 0 [read_one_cmd]
       (replicate (length ([read_one_cmd] @ bad_decode_cmd # [read_all_cmd])) VNil) [] open_tx
     = ([VInt 10, VNil, VNil], None, [0], ?st1)"
    by (simp add: run_batch)
  have h2: "Affect bad_decode_cmd = 0" by (simp add: bad_decode_cmd_def)
  have h3: "tx_Query counting_db (Query bad_decode_cmd)
        (resolved (ArgsFunc bad_decode_cmd) (Args bad_decode_cmd) [VInt 10, VNil, VNil]) (world ?st1)
      = (Inr two_rows, 2)"
    by (simp add: counting_db_def)
  have h4: "callback_error (ReadOne bad_decode_cmd) (ReadAll bad_decode_cmd) (Init bad_decode_cmd) two_rows
      = Some (Err ''decode'')"
    by (simp add: run_batch)
  from C10_callback_error_leaves_slot_unset[OF h1 h2 h3 h4] show ?thesis
    using h1 h2 h3 h4 by simp
qed

lemmas run_batch_s =
  Batch_s_def Batch_step_s_def read_command_s_def faulty_db_def faulty_rows_def
  bad_decode_cmd_s_def lonely_update_cmd_s_def read_all_cmd_s_def read_one_cmd_s_def

lemmas run_batch_h =
  Batch_h_def Batch_step_h_def scan_rows_h_def tx_Commit_def tx_Rollback_def
  failing_commit_db_def no_tx_def insert_cmd_h_def lonely_update_cmd_h_def



text \<open>
  C1, as amended.  When every command of a batch completes without error, the
  transaction-owning \<open>Batch\<close> calls commit on the transaction once, after the last command
  and as the last thing it performs on the transaction (the deferred rollback finds the
  transaction finished); the results-returning \<open>Batch\<close> performs neither commit nor
  rollback and returns the results with no error.
\<close>

theorem C1_commit_after_success:
  "(db_Begin d (world st) = (None, w0)
      \<and> Batch_loop_h d 0 cs_h (st\<lparr>world := w0, status := TxOpen\<rparr>) = (None, st1)
    \<longrightarrow> trace (snd (Batch_h d cs_h st)) = trace st1 @ [TxCommit]
       \<and> status (snd (Batch_h d cs_h st)) = TxCommitted
       \<and> filter is_finish (drop (length (trace st)) (trace st1)) = [])
   \<and> (Batch_loop d' 0 cs (replicate (length cs) VNil) [] st' = (r, None, df, st1')
    \<longrightarrow> Batch d' cs st' = (r, None, run_defers df st1')
       \<and> status (run_defers df st1') = status st'
       \<and> filter is_finish (drop (length (trace st')) (trace (run_defers df st1'))) = [])"
proof -
  have a: "trace (snd (Batch_h d cs_h st)) = trace st1 @ [TxCommit]
       \<and> status (snd (Batch_h d cs_h st)) = TxCommitted
       \<and> filter is_finish (drop (length (trace st)) (trace st1)) = []"
    if b: "db_Begin d (world st) = (None, w0)"
      and l: "Batch_loop_h d 0 cs_h (st\<lparr>world := w0, status := TxOpen\<rparr>) = (None, st1)"
  proof -
    from Batch_h_outcome(4)[OF b l] obtain w2 where
      "Batch_h d cs_h st =
         (None, st1\<lparr>world := w2, status := TxCommitted, trace := trace st1 @ [TxCommit]\<rparr>)"
      by blast
    then show ?thesis using Batch_h_outcome(2)[OF b l] by simp
  qed
  have b: "Batch d' cs st' = (r, None, run_defers df st1')
       \<and> status (run_defers df st1') = status st'
       \<and> filter is_finish (drop (length (trace st')) (trace (run_defers df st1'))) = []"
    if l: "Batch_loop d' 0 cs (replicate (length cs) VNil) [] st' = (r, None, df, st1')"
  proof -
    have g: "grows (\<lambda>j. 0 \<le> j \<and> j < 0 + length cs) st' st1'"
      using loop_grows[of 0 cs st' d' "replicate (length cs) VNil" "[]"] l by simp
    then obtain es where t: "trace st1' = trace st' @ es" by (auto simp: grows_def)
    have s: "status st1' = status st'" using g by (simp add: grows_def)
    have "filter is_finish es = []" using grows_no_finish[OF g] t by simp
    moreover have "filter is_finish (map CallClose df) = []" by (induction df) simp_all
    ultimately have "filter is_finish (drop (length (trace st')) (trace (run_defers df st1'))) = []"
      using t by (simp add: run_defers_trace)
    then show ?thesis using l s by (simp add: Batch_def)
  qed
  show ?thesis using a b by blast
qed

theorem C1_commit_after_success_witness:
  "db_Begin counting_db (world no_tx) = (None, 0)
   \<and> Batch_loop_h counting_db 0 [insert_cmd_h] (no_tx\<lparr>world := 0, status := TxOpen\<rparr>)
      = (None, \<lparr>world = 1, status = TxOpen,
                trace = [CallExec 0 ''INSERT INTO t VALUES ($1)'' [VInt 1]]\<rparr>)
   \<and> trace (snd (Batch_h counting_db [insert_cmd_h] no_tx))
      = [CallExec 0 ''INSERT INTO t VALUES ($1)'' [VInt 1], TxCommit]
   \<and> status (snd (Batch_h counting_db [insert_cmd_h] no_tx)) = TxCommitted
   \<and> Batch_loop counting_db 0 [read_one_cmd] (replicate (length [read_one_cmd]) VNil) [] open_tx
      = ([VInt 10], None, [0],
         \<lparr>world = 1, status = TxOpen,
          trace = [CallQuery 0 ''SELECT id FROM t'' [], CallReadOne 0 [VInt 10], CallClose 0]\<rparr>)
   \<and> Batch counting_db [read_one_cmd] open_tx
      = ([VInt 10], None,
         \<lparr>world = 1, status = TxOpen,
          trace = [CallQuery 0 ''SELECT id FROM t'' [], CallReadOne 0 [VInt 10], CallClose 0,
                   CallClose 0]\<rparr>)"
proof -
  let ?h1 = "\<lparr>world = 1::nat, status = TxOpen,
                trace = [CallExec 0 ''INSERT INTO t VALUES ($1)'' [VInt 1]]\<rparr>"
  let ?s1 = "\<lparr>world = 1::nat, status = TxOpen,
          trace = [CallQuery 0 ''SELECT id FROM t'' [], CallReadOne 0 [VInt 10], CallClose 0]\<rparr>"
  have h1: "db_Begin counting_db (world no_tx) = (None, 0)"
    by (simp add: counting_db_def no_tx_def)
  have h2: "Batch_loop_h counting_db 0 [insert_cmd_h] (no_tx\<lparr>world := 0, status := TxOpen\<rparr>)
      = (None, ?h1)"
    by (simp add: run_batch run_batch_h)
  have h3: "Batch_loop counting_db 0 [read_one_cmd] (replicate (length [read_one_cmd]) VNil) [] open_tx
      = ([VInt 10], None, [0], ?s1)"
    by (simp add: run_batch)
  from C1_commit_after_success[of counting_db no_tx 0 "[insert_cmd_h]" ?h1
      counting_db "[read_one_cmd]" open_tx "[VInt 10]" "[0]" ?s1] h1 h2 h3
  have "trace (snd (Batch_h counting_db [insert_cmd_h] no_tx)) = trace ?h1 @ [TxCommit]
       \<and> status (snd (Batch_h counting_db [insert_cmd_h] no_tx)) = TxCommitted
       \<and> Batch counting_db [read_one_cmd] open_tx = ([VInt 10], None, run_defers [0] ?s1)"
    by blast
  then show ?thesis using h1 h2 h3 by (simp add: emit_def)
qed

text \<open>
  The claim C1 as stated fails: the results-returning \<open>Batch\<close> returns from a batch whose
  only command completed with the transaction still open and no commit performed, and the
  transaction-owning \<open>Batch\<close> returns nil although the commit answered with an error.
\<close>

theorem C1_counterexample:
  "Batch counting_db [read_one_cmd] open_tx
     = ([VInt 10], None,
        \<lparr>world = 1, status = TxOpen,
         trace = [CallQuery 0 ''SELECT id FROM t'' [], CallReadOne 0 [VInt 10], CallClose 0,
                  CallClose 0]\<rparr>)
   \<and> drv_Commit failing_commit_db 1 = (Some (Err ''commit failed''), 1)
   \<and> Batch_h failing_commit_db [insert_cmd_h] no_tx
     = (None,
        \<lparr>world = 1, status = TxCommitted,
         trace = [CallExec 0 ''INSERT INTO t VALUES ($1)'' [VInt 1], TxCommit]\<rparr>)"
  by (simp add: run_batch run_batch_h)




text \<open>
  C3.  The claim fails on the earlier results-returning \<open>Batch\<close>: when the read callback
  of a command returns an error, the function returns at once; the cursor that its query
  opened (two rows, the first just read) is never closed.  The executor with the deferred
  \<^verbatim>\<open>rows.Close()\<close> closes it (lemma \<open>Batch_releases_cursor\<close>).
\<close>

theorem C3_cursor_left_open:
  "Batch_s counting_db [bad_decode_cmd_s] open_tx
     = ([VNil], Some (Err ''decode''),
        \<lparr>world = 1, status = TxOpen,
         trace = [CallQuery 0 ''SELECT id FROM t'' [], CallReadOne 0 [VInt 10]]\<rparr>)
   \<and> Batch counting_db [bad_decode_cmd] open_tx
     = ([VNil], Some (Err ''decode''),
        \<lparr>world = 1, status = TxOpen,
         trace = [CallQuery 0 ''SELECT id FROM t'' [], CallReadOne 0 [VInt 10], CallClose 0]\<rparr>)"
  by (simp add: run_batch run_batch_s)


end
